theory Spec2Isabelle
  imports Complex_Main
begin

section \<open>FashionDetector: search state, search pipeline and rate limiter\<close>

text \<open>
  A shallow embedding of the Python sources
  \<^verbatim>\<open>src/services/search_state_service.py\<close>,
  \<^verbatim>\<open>src/services/search_service.py\<close>,
  \<^verbatim>\<open>src/services/vision_service.py\<close>,
  \<^verbatim>\<open>src/repositories/search_repository.py\<close>,
  \<^verbatim>\<open>src/routers/searches.py\<close> and
  \<^verbatim>\<open>src/middleware/rate_limiter.py\<close>.

  Conventions. Python's unbounded \<open>int\<close> is \<open>int\<close>; a \<open>float\<close> clock reading
  (\<open>time.time()\<close>) is an exact \<open>real\<close>, so floating-point rounding is not modelled;
  a \<open>datetime\<close> is an \<open>int\<close> number of microseconds. A dictionary is a map.
  Everything the environment decides (whether a file operation succeeds, what the clock
  reads, what an injected collaborator returns or raises) is a parameter, so every
  definition is a function that computes.
\<close>

subsection \<open>The environment: file operations and the clock\<close>

text \<open>
  The counter \<open>tick\<close> of the world advances at each file operation and each clock
  reading. \<open>io_ok env n\<close> says whether a file operation made at step \<open>n\<close> succeeds,
  and \<open>clock env n\<close> is what \<open>datetime.now()\<close> reads at step \<open>n\<close>.
\<close>

record env =
  io_ok :: "nat \<Rightarrow> bool"
  clock :: "nat \<Rightarrow> int"

subsection \<open>search\_state\_service.py\<close>

datatype SearchStatus = PROCESSING | COMPLETED | FAILED

record store_state =
  store_name :: string
  store_status :: SearchStatus
  time_ms :: int

record AttributeRecognition =
  attr_name :: string
  attr_value :: string
  confidence :: real

record search_state =
  search_id :: string
  status :: SearchStatus
  start_time :: int
  end_time :: "int option"
  elapsed_time_ms :: int
  stores_searched :: "store_state list"
  attributes_recognized :: "AttributeRecognition list"
  result_count :: int

text \<open>
  \<open>files\<close> is the directory \<^verbatim>\<open>temp/search_states\<close>, one JSON file per
  search identifier; \<open>images\<close> holds the uploaded images that \<open>save_image\<close>
  stored, by path or URL.
\<close>

record world =
  files :: "string \<rightharpoonup> search_state"
  images :: "string \<rightharpoonup> string"
  tick :: nat

definition now :: "env \<Rightarrow> world \<Rightarrow> int \<times> world" where
  "now e w = (clock e (tick w), w\<lparr>tick := Suc (tick w)\<rparr>)"

text \<open>
  \<open>int((end - start).total_seconds() * 1000)\<close>: \<open>int()\<close> truncates towards zero.
\<close>

definition total_ms :: "int \<Rightarrow> int" where
  "total_ms d = (if d < 0 then - ((- d) div 1000) else d div 1000)"

text \<open>
  \<open>_save_state\<close> catches every exception of \<open>open\<close> and \<open>json.dump\<close> and logs
  it: the caller never learns that the write was lost. A failed write is modelled as
  leaving the file as it was.
\<close>

definition save_state :: "env \<Rightarrow> string \<Rightarrow> search_state \<Rightarrow> world \<Rightarrow> world" where
  "save_state e sid st w =
     (if io_ok e (tick w)
      then w\<lparr>files := (files w)(sid \<mapsto> st), tick := Suc (tick w)\<rparr>
      else w\<lparr>tick := Suc (tick w)\<rparr>)"

text \<open>
  \<open>_load_state\<close> returns \<open>None\<close> when the file does not exist (no file is opened),
  and also when reading it raises.
\<close>

definition load_state :: "env \<Rightarrow> string \<Rightarrow> world \<Rightarrow> search_state option \<times> world" where
  "load_state e sid w =
     (case files w sid of
        None \<Rightarrow> (None, w)
      | Some st \<Rightarrow>
          (if io_ok e (tick w) then Some st else None, w\<lparr>tick := Suc (tick w)\<rparr>))"

definition initialize_search :: "env \<Rightarrow> string \<Rightarrow> string list \<Rightarrow> world \<Rightarrow> world" where
  "initialize_search e sid stores w =
     (let stores_state =
            map (\<lambda>store. \<lparr>store_name = store, store_status = PROCESSING, time_ms = 0\<rparr>) stores;
          (t, w1) = now e w;
          state = \<lparr>search_id = sid, status = PROCESSING, start_time = t, end_time = None,
                   elapsed_time_ms = 0, stores_searched = stores_state,
                   attributes_recognized = [], result_count = 0\<rparr>
      in save_state e sid state w1)"

definition update_search_status :: "env \<Rightarrow> string \<Rightarrow> SearchStatus \<Rightarrow> world \<Rightarrow> world" where
  "update_search_status e sid s w =
     (case load_state e sid w of
        (None, w1) \<Rightarrow> w1
      | (Some state, w1) \<Rightarrow>
          (let state1 = state\<lparr>status := s\<rparr> in
           if s = COMPLETED \<or> s = FAILED
           then (let (t, w2) = now e w1;
                     state2 = state1\<lparr>end_time := Some t,
                                     elapsed_time_ms := total_ms (t - start_time state1)\<rparr>
                 in save_state e sid state2 w2)
           else save_state e sid state1 w1))"

text \<open>
  The loop of \<open>update_store_status\<close>: the first entry whose name is \<open>store\<close> is
  updated and the loop breaks.
\<close>

fun update_store_entry :: "string \<Rightarrow> SearchStatus \<Rightarrow> int \<Rightarrow> store_state list \<Rightarrow> store_state list" where
  "update_store_entry store s t [] = []"
| "update_store_entry store s t (x # xs) =
     (if store_name x = store
      then x\<lparr>store_status := s, time_ms := t\<rparr> # xs
      else x # update_store_entry store s t xs)"

definition update_store_status ::
  "env \<Rightarrow> string \<Rightarrow> string \<Rightarrow> SearchStatus \<Rightarrow> int \<Rightarrow> world \<Rightarrow> world" where
  "update_store_status e sid store s t w =
     (case load_state e sid w of
        (None, w1) \<Rightarrow> w1
      | (Some state, w1) \<Rightarrow>
          save_state e sid
            (state\<lparr>stores_searched := update_store_entry store s t (stores_searched state)\<rparr>) w1)"

definition update_attributes ::
  "env \<Rightarrow> string \<Rightarrow> AttributeRecognition list \<Rightarrow> world \<Rightarrow> world" where
  "update_attributes e sid attributes w =
     (case load_state e sid w of
        (None, w1) \<Rightarrow> w1
      | (Some state, w1) \<Rightarrow> save_state e sid (state\<lparr>attributes_recognized := attributes\<rparr>) w1)"

definition update_result_count :: "env \<Rightarrow> string \<Rightarrow> int \<Rightarrow> world \<Rightarrow> world" where
  "update_result_count e sid count w =
     (case load_state e sid w of
        (None, w1) \<Rightarrow> w1
      | (Some state, w1) \<Rightarrow> save_state e sid (state\<lparr>result_count := count\<rparr>) w1)"

definition get_search_status :: "env \<Rightarrow> string \<Rightarrow> world \<Rightarrow> search_state option \<times> world" where
  "get_search_status e sid w = load_state e sid w"


subsection \<open>vision\_service.py\<close>

datatype exn = Exception string




subsection \<open>search\_service.py\<close>

datatype StoreEnum = ZALANDO | MODIVO | ASOS

fun store_value :: "StoreEnum \<Rightarrow> string" where
  "store_value ZALANDO = ''zalando''"
| "store_value MODIVO = ''modivo''"
| "store_value ASOS = ''asos''"

record Product =
  title :: string
  product_store :: string
  product_url :: string
  similarity_score :: real

record UploadFile =
  content_type :: "string option"
  content :: string
  read_ok :: bool

text \<open>
  The services that \<open>SearchService.__init__\<close> receives. Each call of an injected
  service returns a value or raises; \<open>search_store\<close> and \<open>save_store_search\<close> also
  receive the position of the store in the requested list, so that two calls for the
  same store may differ.
\<close>

record deps =
  analyze :: "string \<Rightarrow> exn + AttributeRecognition list \<times> int"
  search_store :: "nat \<Rightarrow> string \<Rightarrow> AttributeRecognition list \<Rightarrow> string \<Rightarrow> exn + Product list"
  save_attributes_batch :: "AttributeRecognition list \<Rightarrow> int \<Rightarrow> exn + bool"
  save_store_search :: "nat \<Rightarrow> string \<Rightarrow> bool \<Rightarrow> int option \<Rightarrow> exn + bool"
  save_search_metrics :: "int \<Rightarrow> int \<Rightarrow> int \<Rightarrow> int \<Rightarrow> exn + bool"

record SearchService =
  s3_bucket :: "string option"

definition validate_image :: "UploadFile \<Rightarrow> bool \<times> string" where
  "validate_image img =
     (let valid_types = [''image/jpeg'', ''image/png''] in
      if (case content_type img of None \<Rightarrow> True | Some ct \<Rightarrow> ct \<notin> set valid_types)
      then (False, ''Invalid image format. Only JPEG/PNG accepted.'')
      else if \<not> read_ok img then (False, ''Error processing image file.'')
      else (let size_in_mb = real (length (content img)) / (1024 * 1024) in
            if size_in_mb > 10 then (False, ''Image too large. Maximum size is 10 MB.'')
            else (True, [])))"

definition image_location :: "SearchService \<Rightarrow> UploadFile \<Rightarrow> string \<Rightarrow> string" where
  "image_location svc img sid =
     (let ext = (if content_type img = Some ''image/jpeg'' then ''jpg'' else ''png'');
          filename = sid @ ''.'' @ ext
      in case s3_bucket svc of
           None \<Rightarrow> ''temp/'' @ filename
         | Some bucket \<Rightarrow>
             if bucket = [] then ''temp/'' @ filename
             else ''https://'' @ bucket @ ''.s3.amazonaws.com/uploads/'' @ filename)"

text \<open>
  \<open>save_image\<close> returns \<open>None\<close> whenever reading the upload or writing the copy
  raises (a \<open>ClientError\<close> of the upload to S3, or any exception).
\<close>

definition save_image ::
  "env \<Rightarrow> SearchService \<Rightarrow> UploadFile \<Rightarrow> string \<Rightarrow> world \<Rightarrow> string option \<times> world" where
  "save_image e svc img sid w =
     (if read_ok img \<and> io_ok e (tick w)
      then (Some (image_location svc img sid),
            w\<lparr>images := (images w)(image_location svc img sid \<mapsto> content img),
              tick := Suc (tick w)\<rparr>)
      else (None, w\<lparr>tick := Suc (tick w)\<rparr>))"

type_synonym totals = "(string \<rightharpoonup> Product list) \<times> int"

text \<open>
  The \<open>except\<close> block of one store: the store is marked failed (with the default
  \<open>time_ms = 0\<close>) and the failed search is reported to the repository. An exception
  of the repository leaves the loop.
\<close>

definition store_failed ::
  "deps \<Rightarrow> env \<Rightarrow> string \<Rightarrow> nat \<Rightarrow> string \<Rightarrow> totals \<Rightarrow> world \<Rightarrow> world \<times> totals \<times> exn option" where
  "store_failed d e sid i name acc w =
     (let w1 = update_store_status e sid name FAILED 0 w in
      case save_store_search d i name False None of
        Inr ok \<Rightarrow> (w1, acc, None)
      | Inl ex \<Rightarrow> (w1, acc, Some ex))"

text \<open>
  The body of \<open>for store in stores\<close>, with its \<open>try\<close> and \<open>except\<close>. The result
  carries the locals \<open>store_results\<close> and \<open>total_results\<close>, and the exception that
  leaves the loop, if any.
\<close>

definition search_one_store ::
  "deps \<Rightarrow> env \<Rightarrow> string \<Rightarrow> AttributeRecognition list \<Rightarrow> int \<Rightarrow> nat \<Rightarrow> StoreEnum \<Rightarrow> totals \<Rightarrow>
   world \<Rightarrow> world \<times> totals \<times> exn option" where
  "search_one_store d e sid attributes start_search_time i st acc w =
     (let name = store_value st;
          w1 = update_store_status e sid name PROCESSING 0 w
      in case search_store d i name attributes sid of
           Inl ex \<Rightarrow> store_failed d e sid i name acc w1
         | Inr products \<Rightarrow>
             (let acc1 = ((fst acc)(name \<mapsto> products), snd acc + int (length products));
                  (t, w2) = now e w1;
                  store_search_time_ms = total_ms (t - start_search_time);
                  w3 = update_store_status e sid name COMPLETED store_search_time_ms w2
              in case save_store_search d i name True (Some store_search_time_ms) of
                   Inr ok \<Rightarrow> (w3, acc1, None)
                 | Inl ex \<Rightarrow> store_failed d e sid i name acc1 w3))"

fun search_stores ::
  "deps \<Rightarrow> env \<Rightarrow> string \<Rightarrow> AttributeRecognition list \<Rightarrow> int \<Rightarrow> nat \<Rightarrow> StoreEnum list \<Rightarrow> totals \<Rightarrow>
   world \<Rightarrow> world \<times> totals \<times> exn option" where
  "search_stores d e sid attributes t0 i [] acc w = (w, acc, None)"
| "search_stores d e sid attributes t0 i (st # rest) acc w =
     (case search_one_store d e sid attributes t0 i st acc w of
        (w1, acc1, Some ex) \<Rightarrow> (w1, acc1, Some ex)
      | (w1, acc1, None) \<Rightarrow> search_stores d e sid attributes t0 (Suc i) rest acc1 w1)"

text \<open>
  The \<open>try\<close> block of \<open>process_search\<close>: the world it leaves, and the exception
  that ended it, if any.
\<close>

definition process_search_body ::
  "deps \<Rightarrow> env \<Rightarrow> SearchService \<Rightarrow> UploadFile \<Rightarrow> StoreEnum list \<Rightarrow> string \<Rightarrow> int \<Rightarrow> world \<Rightarrow>
   world \<times> exn option" where
  "process_search_body d e svc img stores sid started w =
     (let store_names = map store_value stores;
          w1 = initialize_search e sid store_names w;
          (image_url, w2) = save_image e svc img sid w1
      in case image_url of
           None \<Rightarrow> (update_search_status e sid FAILED w2, None)
         | Some location \<Rightarrow>
             (case analyze d location of
                Inl ex \<Rightarrow> (w2, Some ex)
              | Inr (attributes, analysis_time_ms) \<Rightarrow>
                  (let w3 = update_attributes e sid attributes w2 in
                   case save_attributes_batch d attributes analysis_time_ms of
                     Inl ex \<Rightarrow> (w3, Some ex)
                   | Inr ok \<Rightarrow>
                       (let (start_search_time, w4) = now e w3 in
                        case search_stores d e sid attributes start_search_time 0 stores
                               (Map.empty, 0) w4 of
                          (w5, acc, Some ex) \<Rightarrow> (w5, Some ex)
                        | (w5, (store_results, total_results), None) \<Rightarrow>
                            (let (t1, w6) = now e w5;
                                 search_time_ms = total_ms (t1 - start_search_time);
                                 w7 = update_result_count e sid total_results w6;
                                 w8 = update_search_status e sid COMPLETED w7;
                                 (t2, w9) = now e w8;
                                 total_time_ms = total_ms (t2 - started)
                             in case save_search_metrics d total_time_ms analysis_time_ms
                                       search_time_ms total_results of
                                  Inl ex \<Rightarrow> (w9, Some ex)
                                | Inr ok \<Rightarrow> (w9, None))))))"

definition process_search ::
  "deps \<Rightarrow> env \<Rightarrow> SearchService \<Rightarrow> UploadFile \<Rightarrow> StoreEnum list \<Rightarrow> string \<Rightarrow> world \<Rightarrow> world" where
  "process_search d e svc img stores sid w =
     (let (started, w0) = now e w in
      case process_search_body d e svc img stores sid started w0 of
        (w1, None) \<Rightarrow> w1
      | (w1, Some ex) \<Rightarrow> update_search_status e sid FAILED w1)"

subsection \<open>repositories/search\_repository.py\<close>

text \<open>
  The methods of \<open>SearchRepository\<close> that \<open>process_search\<close> calls. Each returns
  \<open>False\<close> without a connection pool, and catches every exception of the database
  call and returns \<open>False\<close>; \<open>save_attributes_batch\<close> returns \<open>True\<close> at once
  for an empty list. \<open>db_ok\<close> says whether the database call succeeds.
\<close>

record SearchRepository =
  pool :: bool
  db_ok :: bool

definition repository_save_attributes_batch ::
  "SearchRepository \<Rightarrow> AttributeRecognition list \<Rightarrow> int \<Rightarrow> exn + bool" where
  "repository_save_attributes_batch repo attributes analysis_time_ms =
     (if attributes = [] then Inr True
      else if \<not> pool repo then Inr False
      else Inr (db_ok repo))"

definition repository_save_store_search ::
  "SearchRepository \<Rightarrow> nat \<Rightarrow> string \<Rightarrow> bool \<Rightarrow> int option \<Rightarrow> exn + bool" where
  "repository_save_store_search repo i name search_performed response_time_ms =
     (if \<not> pool repo then Inr False else Inr (db_ok repo))"

definition repository_save_search_metrics ::
  "SearchRepository \<Rightarrow> int \<Rightarrow> int \<Rightarrow> int \<Rightarrow> int \<Rightarrow> exn + bool" where
  "repository_save_search_metrics repo total_time_ms analysis_time_ms search_time_ms n =
     (if \<not> pool repo then Inr False else Inr (db_ok repo))"

definition with_repository :: "SearchRepository \<Rightarrow> deps \<Rightarrow> deps" where
  "with_repository repo d =
     d\<lparr>save_attributes_batch := repository_save_attributes_batch repo,
       save_store_search := repository_save_store_search repo,
       save_search_metrics := repository_save_search_metrics repo\<rparr>"

subsection \<open>routers/searches.py\<close>

datatype HTTPException = HTTPException int string

record SearchResponse =
  response_search_id :: string
  response_status :: string
  estimated_time_seconds :: int
  timestamp :: string

type_synonym background_task = "UploadFile \<times> StoreEnum list \<times> string"

text \<open>\<open>list(StoreEnum)\<close>: the members in the order of their definition.\<close>

definition all_stores :: "StoreEnum list" where
  "all_stores = [ZALANDO, MODIVO, ASOS]"

text \<open>
  \<open>create_search\<close>. \<open>new_id\<close> is what \<open>generate_search_id\<close> returns and
  \<open>stamp\<close> what \<open>get_timestamp\<close> returns. The result is the raised
  \<open>HTTPException\<close>, or the status code of the route (202), the response and the
  background tasks with the new task added.
\<close>

definition create_search ::
  "string \<Rightarrow> string \<Rightarrow> background_task list \<Rightarrow> UploadFile \<Rightarrow> StoreEnum list option \<Rightarrow>
   HTTPException + (int \<times> SearchResponse) \<times> background_task list" where
  "create_search new_id stamp background_tasks img stores =
     (let (is_valid, error_message) = validate_image img in
      if \<not> is_valid then Inl (HTTPException 400 error_message)
      else (let sid = new_id;
                stores1 = (case stores of
                             None \<Rightarrow> all_stores
                           | Some l \<Rightarrow> if l = [] then all_stores else l);
                tasks = background_tasks @ [(img, stores1, sid)]
            in Inr ((202, \<lparr>response_search_id = sid, response_status = ''processing'',
                           estimated_time_seconds = 10, timestamp = stamp\<rparr>), tasks)))"

text \<open>
  One request to \<open>POST /api/searches/\<close>: the handler, and then, when it returned a
  response, the background tasks it added, each a call of \<open>process_search\<close>.
\<close>

definition run_tasks ::
  "deps \<Rightarrow> env \<Rightarrow> SearchService \<Rightarrow> background_task list \<Rightarrow> world \<Rightarrow> world" where
  "run_tasks d e svc tasks w =
     fold (\<lambda>(img, stores, sid) w'. process_search d e svc img stores sid w') tasks w"

definition post_search ::
  "deps \<Rightarrow> env \<Rightarrow> SearchService \<Rightarrow> string \<Rightarrow> string \<Rightarrow> UploadFile \<Rightarrow> StoreEnum list option \<Rightarrow>
   world \<Rightarrow> (HTTPException + int \<times> SearchResponse) \<times> world" where
  "post_search d e svc new_id stamp img stores w =
     (case create_search new_id stamp [] img stores of
        Inl err \<Rightarrow> (Inl err, w)
      | Inr (response, tasks) \<Rightarrow> (Inr response, run_tasks d e svc tasks w))"

subsection \<open>middleware/rate\_limiter.py\<close>

record RateLimiter =
  anonymous_limit :: int
  authenticated_limit :: int
  window_size :: int
  block_time :: int

record limiter_state =
  request_records :: "string \<rightharpoonup> real list"
  blocked_clients :: "string \<rightharpoonup> real"

text \<open>The two dictionaries as \<open>__init__\<close> creates them.\<close>

definition limiter_init :: limiter_state where
  "limiter_init = \<lparr>request_records = Map.empty, blocked_clients = Map.empty\<rparr>"

record Request =
  path :: string
  forwarded_for :: "string option"
  client_host :: "string option"
  authorization :: "string option"

datatype Response = Passed | TooManyRequests int

text \<open>\<open>int(x)\<close> of a float: truncation towards zero.\<close>

definition py_int :: "real \<Rightarrow> int" where
  "py_int x = (if x < 0 then \<lceil>x\<rceil> else \<lfloor>x\<rfloor>)"

definition is_space :: "char \<Rightarrow> bool" where
  "is_space c \<longleftrightarrow> c \<in> {CHR '' '', CHR 0x09, CHR 0x0A, CHR 0x0B, CHR 0x0C, CHR 0x0D,
                        CHR 0x1C, CHR 0x1D, CHR 0x1E, CHR 0x1F}"

definition strip :: "string \<Rightarrow> string" where
  "strip s = rev (dropWhile is_space (rev (dropWhile is_space s)))"

definition get_client_ip :: "Request \<Rightarrow> string" where
  "get_client_ip req =
     (case forwarded_for req of
        Some ff \<Rightarrow>
          if ff \<noteq> [] then strip (takeWhile (\<lambda>c. c \<noteq> CHR '','') ff)
          else (case client_host req of Some h \<Rightarrow> h | None \<Rightarrow> ''unknown'')
      | None \<Rightarrow> (case client_host req of Some h \<Rightarrow> h | None \<Rightarrow> ''unknown''))"

definition is_authenticated :: "Request \<Rightarrow> bool" where
  "is_authenticated req =
     (case authorization req of
        Some auth_header \<Rightarrow> auth_header \<noteq> [] \<and> take 7 auth_header = ''Bearer ''
      | None \<Rightarrow> False)"

definition should_rate_limit :: "string \<Rightarrow> bool" where
  "should_rate_limit p \<longleftrightarrow> take 13 p = ''/api/searches''"

definition is_client_blocked :: "real \<Rightarrow> string \<Rightarrow> limiter_state \<Rightarrow> (bool \<times> int) \<times> limiter_state" where
  "is_client_blocked t client_ip s =
     (case blocked_clients s client_ip of
        Some unblock_time \<Rightarrow>
          if t \<ge> unblock_time
          then ((False, 0), s\<lparr>blocked_clients := (blocked_clients s)(client_ip := None)\<rparr>)
          else ((True, py_int (unblock_time - t)), s)
      | None \<Rightarrow> ((False, 0), s))"

text \<open>
  \<open>request_records\<close> is a \<open>defaultdict(list)\<close>: reading the entry of a client that
  has none creates the empty list.
\<close>

definition records_of :: "limiter_state \<Rightarrow> string \<Rightarrow> real list" where
  "records_of s client_ip = (case request_records s client_ip of Some ts \<Rightarrow> ts | None \<Rightarrow> [])"

definition limit_for :: "RateLimiter \<Rightarrow> Request \<Rightarrow> int" where
  "limit_for rl req =
     (if is_authenticated req then authenticated_limit rl else anonymous_limit rl)"

definition check_rate_limit ::
  "RateLimiter \<Rightarrow> real \<Rightarrow> string \<Rightarrow> Request \<Rightarrow> limiter_state \<Rightarrow> (bool \<times> int) \<times> limiter_state" where
  "check_rate_limit rl t client_ip req s =
     (let window_start = t - real_of_int (window_size rl);
          s1 = (case request_records s client_ip of
                  Some ts \<Rightarrow>
                    s\<lparr>request_records :=
                        (request_records s)(client_ip \<mapsto> filter (\<lambda>x. x > window_start) ts)\<rparr>
                | None \<Rightarrow> s);
          limit = limit_for rl req;
          s2 = s1\<lparr>request_records := (request_records s1)(client_ip \<mapsto> records_of s1 client_ip)\<rparr>;
          request_count = int (length (records_of s2 client_ip))
      in if request_count \<ge> limit
         then ((True, block_time rl),
               s2\<lparr>blocked_clients :=
                    (blocked_clients s2)(client_ip \<mapsto> t + real_of_int (block_time rl))\<rparr>)
         else ((False, 0), s2))"

definition record_request :: "real \<Rightarrow> string \<Rightarrow> limiter_state \<Rightarrow> limiter_state" where
  "record_request t client_ip s =
     s\<lparr>request_records := (request_records s)(client_ip \<mapsto> records_of s client_ip @ [t])\<rparr>"

text \<open>
  A request as it arrives at \<open>dispatch\<close>, with the three readings of \<open>time.time()\<close>
  that \<open>_is_client_blocked\<close>, \<open>_check_rate_limit\<close> and \<open>_record_request\<close> take.
\<close>

record arrival =
  request :: Request
  t_block :: real
  t_check :: real
  t_record :: real

definition dispatch :: "RateLimiter \<Rightarrow> arrival \<Rightarrow> limiter_state \<Rightarrow> Response \<times> limiter_state" where
  "dispatch rl a s =
     (if should_rate_limit (path (request a))
      then (let client_ip = get_client_ip (request a);
                ((is_blocked, retry_after), s1) = is_client_blocked (t_block a) client_ip s
            in if is_blocked then (TooManyRequests retry_after, s1)
               else (let ((limit_exceeded, retry_after2), s2) =
                           check_rate_limit rl (t_check a) client_ip (request a) s1
                     in if limit_exceeded then (TooManyRequests retry_after2, s2)
                        else (Passed, record_request (t_record a) client_ip s2)))
      else (Passed, s))"

text \<open>
  Requests served one after the other: the state after all of them, and those that the
  limiter counted and let through, in the order of their arrival.
\<close>

fun serve :: "RateLimiter \<Rightarrow> limiter_state \<Rightarrow> arrival list \<Rightarrow> limiter_state" where
  "serve rl s [] = s"
| "serve rl s (a # as) = serve rl (snd (dispatch rl a s)) as"

fun accepted :: "RateLimiter \<Rightarrow> limiter_state \<Rightarrow> arrival list \<Rightarrow> arrival list" where
  "accepted rl s [] = []"
| "accepted rl s (a # as) =
     (if should_rate_limit (path (request a)) \<and> fst (dispatch rl a s) = Passed
      then a # accepted rl (snd (dispatch rl a s)) as
      else accepted rl (snd (dispatch rl a s)) as)"

text \<open>The clock does not run backwards over a sequence of arrivals.\<close>

definition chronological :: "arrival list \<Rightarrow> bool" where
  "chronological as = sorted (concat (map (\<lambda>a. [t_block a, t_check a, t_record a]) as))"

text \<open>
  The list that \<open>_check_rate_limit\<close> keeps for the client of an arrival, and the
  recording times of the requests of one client that were let through.
\<close>

definition pruned :: "RateLimiter \<Rightarrow> arrival \<Rightarrow> limiter_state \<Rightarrow> real list" where
  "pruned rl a s =
     filter (\<lambda>x. x > t_check a - real_of_int (window_size rl))
       (records_of s (get_client_ip (request a)))"

definition stamps :: "RateLimiter \<Rightarrow> arrival list \<Rightarrow> string \<Rightarrow> real list" where
  "stamps rl as c =
     map t_record (filter (\<lambda>a. get_client_ip (request a) = c) (accepted rl limiter_init as))"

text \<open>
  The window of \<open>window_size\<close> seconds that starts at \<open>s\<close>, with both of its ends.
\<close>

definition in_closed_window :: "RateLimiter \<Rightarrow> string \<Rightarrow> real \<Rightarrow> arrival \<Rightarrow> bool" where
  "in_closed_window rl c s a \<longleftrightarrow>
     get_client_ip (request a) = c \<and> s \<le> t_record a
     \<and> t_record a \<le> s + real_of_int (window_size rl)"

subsection \<open>Assumptions on the environment\<close>

text \<open>
  No file operation fails; no call of the repository raises (the methods of
  \<open>SearchRepository\<close> catch every exception and return a boolean).
\<close>

definition reliable :: "env \<Rightarrow> bool" where
  "reliable e \<longleftrightarrow> (\<forall>n. io_ok e n)"

definition repository_quiet :: "deps \<Rightarrow> bool" where
  "repository_quiet d \<longleftrightarrow>
     (\<forall>attributes t. \<not> isl (save_attributes_batch d attributes t))
     \<and> (\<forall>i name performed t. \<not> isl (save_store_search d i name performed t))
     \<and> (\<forall>t1 t2 t3 n. \<not> isl (save_search_metrics d t1 t2 t3 n))"

text \<open>The first entry of a record for a store name.\<close>

definition entry_of :: "search_state \<Rightarrow> string \<Rightarrow> store_state option" where
  "entry_of r name = find (\<lambda>x. store_name x = name) (stores_searched r)"

text \<open>
  What one call of \<open>search_store\<close> means for its store: the sub-status it leads to and
  the number of products it adds to \<open>total_results\<close>.
\<close>

definition store_outcome :: "exn + Product list \<Rightarrow> SearchStatus" where
  "store_outcome x = (case x of Inl ex \<Rightarrow> FAILED | Inr products \<Rightarrow> COMPLETED)"

definition returned_count :: "exn + Product list \<Rightarrow> int" where
  "returned_count x = (case x of Inl ex \<Rightarrow> 0 | Inr products \<Rightarrow> int (length products))"


section \<open>Example inputs\<close>

definition example_env :: env where
  "example_env = \<lparr>io_ok = (\<lambda>n. True), clock = (\<lambda>n. 1000000 * int n)\<rparr>"



definition rl1 :: RateLimiter where
  "rl1 = \<lparr>anonymous_limit = 1, authenticated_limit = 100, window_size = 3600,
          block_time = 3600\<rparr>"

definition arrive :: "string \<Rightarrow> real \<Rightarrow> arrival" where
  "arrive ip t =
     \<lparr>request = \<lparr>path = ''/api/searches/'', forwarded_for = None, client_host = Some ip,
                  authorization = None\<rparr>,
      t_block = t, t_check = t, t_record = t\<rparr>"

definition empty_world :: world where
  "empty_world = \<lparr>files = Map.empty, images = Map.empty, tick = 0\<rparr>"

definition example_product :: Product where
  "example_product =
     \<lparr>title = ''Brand red solid slim shirt'', product_store = ''zalando'',
      product_url = ''https://zalando.example.com/product0'', similarity_score = 95 / 100\<rparr>"

definition example_attributes :: "AttributeRecognition list" where
  "example_attributes = [\<lparr>attr_name = ''color'', attr_value = ''red'', confidence = 95 / 100\<rparr>]"

text \<open>
  A repository that never raises, an analyzer that recognizes one attribute, and a store
  searcher in which every search of \<open>asos\<close> raises, every second or later search
  raises, and any other search returns three products.
\<close>

definition example_deps :: deps where
  "example_deps =
     \<lparr>analyze = (\<lambda>location. Inr (example_attributes, 1500)),
      search_store = (\<lambda>i name attributes sid.
         if name = ''asos'' \<or> 0 < i then Inl (Exception ''timeout'')
         else Inr [example_product, example_product, example_product]),
      save_attributes_batch = (\<lambda>attributes t. Inr True),
      save_store_search = (\<lambda>i name performed t. Inr True),
      save_search_metrics = (\<lambda>t1 t2 t3 n. Inr True)\<rparr>"

definition example_service :: SearchService where
  "example_service = \<lparr>s3_bucket = None\<rparr>"

definition example_image :: UploadFile where
  "example_image =
     \<lparr>content_type = Some ''image/jpeg'', content = ''mock image data'', read_ok = True\<rparr>"

text \<open>An environment in which a file operation fails exactly at step 17.\<close>

definition failing_env :: env where
  "failing_env = \<lparr>io_ok = (\<lambda>n. n \<noteq> 17), clock = (\<lambda>n. 1000000 * int n)\<rparr>"


text \<open>The 15 MiB PNG of the spec's scenario, and a PDF.\<close>

definition large_png :: UploadFile where
  "large_png =
     \<lparr>content_type = Some ''image/png'', content = replicate 15728640 (CHR ''X''),
      read_ok = True\<rparr>"

definition pdf_file :: UploadFile where
  "pdf_file = \<lparr>content_type = Some ''application/pdf'', content = ''%PDF-1.7'', read_ok = True\<rparr>"

section \<open>Properties of the search state service\<close>

lemma load_state_absent: "files w sid = None \<Longrightarrow> load_state e sid w = (None, w)"
  by (simp add: load_state_def)


lemma load_state_cases:
  "load_state e sid w = (r, w1) \<Longrightarrow> files w1 = files w \<and> (r = None \<or> r = files w sid)"
  by (auto simp: load_state_def split: option.splits if_splits)

lemma names_update_store_entry:
  "map store_name (update_store_entry store s t xs) = map store_name xs"
  by (induction xs) auto

lemma length_update_store_entry: "length (update_store_entry store s t xs) = length xs"
  by (induction xs) auto

lemma update_store_entry_no_match:
  "store \<notin> store_name ` set xs \<Longrightarrow> update_store_entry store s t xs = xs"
  by (induction xs) auto




text \<open>
  C9. When no record is persisted under a search identifier, each of the four mutation
  operations returns the world exactly as it received it: no file is created, none is
  changed, and (the operations are total functions of the world) nothing is raised.
\<close>

theorem update_without_record_is_noop:
  assumes "files w sid = None"
  shows "update_search_status e sid s w = w
       \<and> update_store_status e sid store s t w = w
       \<and> update_attributes e sid attributes w = w
       \<and> update_result_count e sid count w = w"
  using assms
  by (simp add: update_search_status_def update_store_status_def update_attributes_def
      update_result_count_def load_state_absent)

theorem update_without_record_is_noop_witness:
  "files \<lparr>files = Map.empty, images = Map.empty, tick = 0\<rparr> ''a1'' = None
   \<and> update_search_status \<lparr>io_ok = (\<lambda>n. True), clock = int\<rparr> ''a1'' FAILED
         \<lparr>files = Map.empty, images = Map.empty, tick = 0\<rparr> = \<lparr>files = Map.empty, images = Map.empty, tick = 0\<rparr>
   \<and> update_store_status \<lparr>io_ok = (\<lambda>n. True), clock = int\<rparr> ''a1'' ''zalando'' FAILED 0
         \<lparr>files = Map.empty, images = Map.empty, tick = 0\<rparr> = \<lparr>files = Map.empty, images = Map.empty, tick = 0\<rparr>
   \<and> update_attributes \<lparr>io_ok = (\<lambda>n. True), clock = int\<rparr> ''a1'' []
         \<lparr>files = Map.empty, images = Map.empty, tick = 0\<rparr> = \<lparr>files = Map.empty, images = Map.empty, tick = 0\<rparr>
   \<and> update_result_count \<lparr>io_ok = (\<lambda>n. True), clock = int\<rparr> ''a1'' 7
         \<lparr>files = Map.empty, images = Map.empty, tick = 0\<rparr> = \<lparr>files = Map.empty, images = Map.empty, tick = 0\<rparr>"
  using update_without_record_is_noop
    [of "\<lparr>files = Map.empty, images = Map.empty, tick = 0\<rparr>" "''a1''"
        "\<lparr>io_ok = (\<lambda>n. True), clock = int\<rparr>" FAILED "''zalando''" 0 "[]" 7]
  by simp






section \<open>Properties of the rate limiter\<close>

lemma serve_append: "serve rl s (as @ bs) = serve rl (serve rl s as) bs"
  by (induction as arbitrary: s) auto

lemma accepted_append:
  "accepted rl s (as @ bs) = accepted rl s as @ accepted rl (serve rl s as) bs"
  by (induction as arbitrary: s) auto

lemma records_of_is_client_blocked:
  "records_of (snd (is_client_blocked t c s)) = records_of s"
  by (auto simp: is_client_blocked_def records_of_def fun_eq_iff split: option.splits)

lemma check_rate_limit_effect:
  "records_of (snd (check_rate_limit rl t c req s)) =
     (records_of s)(c := filter (\<lambda>x. x > t - real_of_int (window_size rl)) (records_of s c))"
  "fst (fst (check_rate_limit rl t c req s)) \<longleftrightarrow>
     int (length (filter (\<lambda>x. x > t - real_of_int (window_size rl)) (records_of s c)))
       \<ge> limit_for rl req"
  by (auto simp: check_rate_limit_def records_of_def fun_eq_iff Let_def split: option.splits)

lemma records_of_record_request:
  "records_of (record_request t c s) = (records_of s)(c := records_of s c @ [t])"
  by (auto simp: record_request_def records_of_def fun_eq_iff)

lemma dispatch_passed:
  assumes "should_rate_limit (path (request a))" "fst (dispatch rl a s) = Passed"
  shows "int (length (pruned rl a s)) < limit_for rl (request a)"
    and "records_of (snd (dispatch rl a s)) =
           (records_of s)(get_client_ip (request a) := pruned rl a s @ [t_record a])"
proof -
  let ?c = "get_client_ip (request a)"
  obtain b r s1 where B: "is_client_blocked (t_block a) ?c s = ((b, r), s1)"
    by (metis prod.exhaust)
  obtain x r2 s2 where C: "check_rate_limit rl (t_check a) ?c (request a) s1 = ((x, r2), s2)"
    by (metis prod.exhaust)
  from assms B C have nb: "\<not> b" and nx: "\<not> x"
    and D: "snd (dispatch rl a s) = record_request (t_record a) ?c s2"
    by (auto simp: dispatch_def Let_def split: if_splits)
  have R1: "records_of s1 = records_of s"
    using records_of_is_client_blocked [of "t_block a" ?c s] B by simp
  have R2: "records_of s2 = (records_of s)(?c := pruned rl a s)"
    using check_rate_limit_effect(1) [of rl "t_check a" ?c "request a" s1] C R1
    by (simp add: pruned_def)
  from check_rate_limit_effect(2) [of rl "t_check a" ?c "request a" s1] C nx R1
  show "int (length (pruned rl a s)) < limit_for rl (request a)"
    by (simp add: pruned_def)
  from D R2 show "records_of (snd (dispatch rl a s)) =
           (records_of s)(?c := pruned rl a s @ [t_record a])"
    by (simp add: records_of_record_request)
qed

lemma dispatch_not_passed:
  assumes "\<not> (should_rate_limit (path (request a)) \<and> fst (dispatch rl a s) = Passed)"
  shows "records_of (snd (dispatch rl a s)) = records_of s
       \<or> records_of (snd (dispatch rl a s)) =
           (records_of s)(get_client_ip (request a) := pruned rl a s)"
proof -
  let ?c = "get_client_ip (request a)"
  obtain b r s1 where B: "is_client_blocked (t_block a) ?c s = ((b, r), s1)"
    by (metis prod.exhaust)
  obtain x r2 s2 where C: "check_rate_limit rl (t_check a) ?c (request a) s1 = ((x, r2), s2)"
    by (metis prod.exhaust)
  have R1: "records_of s1 = records_of s"
    using records_of_is_client_blocked [of "t_block a" ?c s] B by simp
  have R2: "records_of s2 = (records_of s)(?c := pruned rl a s)"
    using check_rate_limit_effect(1) [of rl "t_check a" ?c "request a" s1] C R1
    by (simp add: pruned_def)
  from assms B C have "snd (dispatch rl a s) = s \<or> snd (dispatch rl a s) = s1
     \<or> snd (dispatch rl a s) = s2"
    by (auto simp: dispatch_def Let_def split: if_splits)
  with R1 R2 show ?thesis by auto
qed

lemma chronological_snoc:
  assumes "chronological (as @ [a])"
  shows "chronological as" and "\<forall>b\<in>set as. t_check b \<le> t_check a"
    and "t_check a \<le> t_record a"
  using assms by (auto simp: chronological_def sorted_append)

text \<open>
  Above a threshold that no earlier window start exceeds, the timestamps kept for a
  client are the recording times of its requests that were let through: pruning has
  removed nothing else.
\<close>

lemma records_agree:
  assumes "chronological as"
    and "\<forall>b\<in>set as. t_check b - real_of_int (window_size rl) \<le> \<theta>"
  shows "filter (\<lambda>x. \<theta> < x) (stamps rl as c)
       = filter (\<lambda>x. \<theta> < x) (records_of (serve rl limiter_init as) c)"
  using assms
proof (induction as arbitrary: \<theta> rule: rev_induct)
  case Nil
  then show ?case by (simp add: stamps_def records_of_def limiter_init_def)
next
  case (snoc a as)
  let ?s = "serve rl limiter_init as"
  let ?c = "get_client_ip (request a)"
  from snoc.prems chronological_snoc [of as a]
  have chr: "chronological as"
    and th: "\<forall>b\<in>set as. t_check b - real_of_int (window_size rl) \<le> \<theta>"
    and tha: "t_check a - real_of_int (window_size rl) \<le> \<theta>"
    by auto
  have IH: "filter (\<lambda>x. \<theta> < x) (stamps rl as c) = filter (\<lambda>x. \<theta> < x) (records_of ?s c)"
    using snoc.IH [OF chr th] .
  have pr: "filter (\<lambda>x. \<theta> < x) (pruned rl a ?s) = filter (\<lambda>x. \<theta> < x) (records_of ?s ?c)"
    using tha by (auto simp: pruned_def intro: filter_cong)
  show ?case
  proof (cases "should_rate_limit (path (request a)) \<and> fst (dispatch rl a ?s) = Passed")
    case True
    then have acc: "accepted rl limiter_init (as @ [a]) = accepted rl limiter_init as @ [a]"
      by (simp add: accepted_append)
    from True dispatch_passed(2) [of a rl ?s]
    have rec: "records_of (serve rl limiter_init (as @ [a])) =
         (records_of ?s)(?c := pruned rl a ?s @ [t_record a])"
      by (simp add: serve_append)
    show ?thesis
      using IH pr by (auto simp: stamps_def acc rec)
  next
    case False
    then have acc: "accepted rl limiter_init (as @ [a]) = accepted rl limiter_init as"
      by (auto simp: accepted_append)
    from dispatch_not_passed [OF False]
    have "records_of (serve rl limiter_init (as @ [a])) = records_of ?s
       \<or> records_of (serve rl limiter_init (as @ [a])) = (records_of ?s)(?c := pruned rl a ?s)"
      by (simp add: serve_append)
    then show ?thesis
      using IH pr by (auto simp: stamps_def acc)
  qed
qed

lemma length_filter_mono:
  "(\<And>x. x \<in> set xs \<Longrightarrow> P x \<Longrightarrow> Q x) \<Longrightarrow> length (filter P xs) \<le> length (filter Q xs)"
  by (induction xs) auto

lemma window_bound:
  assumes "chronological as"
  shows "filter (\<lambda>a. F a \<and> get_client_ip (request a) = c \<and> s < t_record a
                  \<and> t_record a \<le> s + real_of_int (window_size rl))
           (accepted rl limiter_init as) = A
     \<Longrightarrow> A \<noteq> [] \<Longrightarrow> int (length A) \<le> limit_for rl (request (last A))"
  using assms
proof (induction as arbitrary: A rule: rev_induct)
  case Nil
  then show ?case by simp
next
  case (snoc a as)
  let ?P = "\<lambda>a. F a \<and> get_client_ip (request a) = c \<and> s < t_record a
                  \<and> t_record a \<le> s + real_of_int (window_size rl)"
  let ?st = "serve rl limiter_init as"
  let ?acc = "accepted rl limiter_init as"
  let ?ws = "t_check a - real_of_int (window_size rl)"
  from snoc.prems chronological_snoc [of as a]
  have chr: "chronological as" and le: "\<forall>b\<in>set as. t_check b \<le> t_check a"
    and cr: "t_check a \<le> t_record a"
    by auto
  show ?case
  proof (cases "should_rate_limit (path (request a)) \<and> fst (dispatch rl a ?st) = Passed \<and> ?P a")
    case False
    then have "filter ?P (accepted rl limiter_init (as @ [a])) = filter ?P ?acc"
      by (auto simp: accepted_append)
    with snoc.prems snoc.IH [OF _ _ chr] show ?thesis by simp
  next
    case True
    then have A: "A = filter ?P ?acc @ [a]"
      using snoc.prems(1) by (auto simp: accepted_append)
    from True have ca: "get_client_ip (request a) = c" and sw: "?ws \<le> s"
      using cr by auto
    have "length (filter ?P ?acc)
        \<le> length (filter (\<lambda>x. ?ws < t_record x)
                    (filter (\<lambda>x. get_client_ip (request x) = c) ?acc))"
      unfolding filter_filter using sw by (intro length_filter_mono) auto
    also have "\<dots> = length (filter (\<lambda>x. ?ws < x) (stamps rl as c))"
      by (simp add: stamps_def filter_map comp_def)
    also have "\<dots> = length (filter (\<lambda>x. ?ws < x) (records_of ?st c))"
      using records_agree [OF chr, of rl ?ws c] le by simp
    also have "\<dots> = length (pruned rl a ?st)"
      by (simp add: pruned_def ca)
    finally have "int (length (filter ?P ?acc)) < limit_for rl (request a)"
      using dispatch_passed(1) [of a rl ?st] True by linarith
    with A show ?thesis by simp
  qed
qed

text \<open>
  C1, as the spec states it, with a window that contains both of its ends: with
  \<open>anonymous_limit = 1\<close> and a window of 3600 seconds, a request recorded at time 0 and
  one recorded at time 3600 are both let through (the list comprehension keeps
  \<open>timestamp > window_start\<close>, so the timestamp 0 is no longer counted at time 3600),
  and both lie in the window from 0 to 3600.
\<close>

theorem closed_window_counterexample:
  "chronological [arrive ''10.0.0.1'' 0, arrive ''10.0.0.1'' 3600]
   \<and> \<not> int (length (filter (in_closed_window rl1 ''10.0.0.1'' 0)
                (accepted rl1 limiter_init [arrive ''10.0.0.1'' 0, arrive ''10.0.0.1'' 3600])))
        \<le> anonymous_limit rl1"
  by (simp add: in_closed_window_def chronological_def arrive_def rl1_def limiter_init_def dispatch_def
      should_rate_limit_def get_client_ip_def is_client_blocked_def check_rate_limit_def
      record_request_def records_of_def limit_for_def is_authenticated_def Let_def)

text \<open>
  C1, amended. Requests are served one after the other, from the initial state, and the
  clock does not run backwards. Take any client \<open>c\<close> and any window \<open>(s, s + window_size]\<close>
  that is open at its start. The requests of \<open>c\<close> that were let through and recorded in
  the window are at most as many as the limit that applied to the last of them; those
  among them that are authenticated are at most \<open>authenticated_limit\<close>, those that are
  not are at most \<open>anonymous_limit\<close>. And a request whose check finds the pruned count
  at or above its limit is not let through, and the timestamps kept for its client are
  the old ones or the pruned ones: none is added.
\<close>

theorem accepted_in_window_bounded:
  assumes "chronological as"
  shows "(let A = filter (\<lambda>a. get_client_ip (request a) = c \<and> s < t_record a
                            \<and> t_record a \<le> s + real_of_int (window_size rl))
                    (accepted rl limiter_init as)
          in A \<noteq> [] \<longrightarrow> int (length A) \<le> limit_for rl (request (last A)))
       \<and> int (length (filter (\<lambda>a. is_authenticated (request a) = b
                                \<and> get_client_ip (request a) = c \<and> s < t_record a
                                \<and> t_record a \<le> s + real_of_int (window_size rl))
                        (accepted rl limiter_init as)))
           \<le> max 0 (if b then authenticated_limit rl else anonymous_limit rl)
       \<and> (should_rate_limit (path (request a)) \<and> limit_for rl (request a) \<le> int (length (pruned rl a st))
            \<longrightarrow> fst (dispatch rl a st) \<noteq> Passed
                \<and> (records_of (snd (dispatch rl a st)) = records_of st
                    \<or> records_of (snd (dispatch rl a st)) =
                        (records_of st)(get_client_ip (request a) := pruned rl a st)))"
proof -
  have one: "let A = filter (\<lambda>a. get_client_ip (request a) = c \<and> s < t_record a
                            \<and> t_record a \<le> s + real_of_int (window_size rl))
                    (accepted rl limiter_init as)
          in A \<noteq> [] \<longrightarrow> int (length A) \<le> limit_for rl (request (last A))"
    using window_bound [OF assms, of "\<lambda>a. True" c s rl] by (simp add: Let_def)
  let ?B = "filter (\<lambda>a. is_authenticated (request a) = b
                                \<and> get_client_ip (request a) = c \<and> s < t_record a
                                \<and> t_record a \<le> s + real_of_int (window_size rl))
                        (accepted rl limiter_init as)"
  have two: "int (length ?B) \<le> max 0 (if b then authenticated_limit rl else anonymous_limit rl)"
  proof (cases "?B = []")
    case True
    then show ?thesis by simp
  next
    case False
    then have "last ?B \<in> set ?B" by (rule last_in_set)
    then have "is_authenticated (request (last ?B)) = b" by simp
    then have "limit_for rl (request (last ?B)) =
        (if b then authenticated_limit rl else anonymous_limit rl)"
      by (simp add: limit_for_def)
    with window_bound [OF assms refl False] show ?thesis by simp
  qed
  have three: "should_rate_limit (path (request a))
            \<and> limit_for rl (request a) \<le> int (length (pruned rl a st))
            \<longrightarrow> fst (dispatch rl a st) \<noteq> Passed
                \<and> (records_of (snd (dispatch rl a st)) = records_of st
                    \<or> records_of (snd (dispatch rl a st)) =
                        (records_of st)(get_client_ip (request a) := pruned rl a st))"
  proof (intro impI, elim conjE)
    assume srl: "should_rate_limit (path (request a))"
      and lim: "limit_for rl (request a) \<le> int (length (pruned rl a st))"
    from dispatch_passed(1) [OF srl, of rl st] lim
    have np: "fst (dispatch rl a st) \<noteq> Passed" by auto
    with dispatch_not_passed [of a rl st]
    show "fst (dispatch rl a st) \<noteq> Passed
                \<and> (records_of (snd (dispatch rl a st)) = records_of st
                    \<or> records_of (snd (dispatch rl a st)) =
                        (records_of st)(get_client_ip (request a) := pruned rl a st))"
      by blast
  qed
  from one two three show ?thesis by blast
qed

lemmas rl_defs = chronological_def arrive_def rl1_def limiter_init_def dispatch_def
      should_rate_limit_def get_client_ip_def is_client_blocked_def check_rate_limit_def
      record_request_def records_of_def limit_for_def is_authenticated_def Let_def pruned_def py_int_def

theorem accepted_in_window_bounded_witness:
  "chronological [arrive ''10.0.0.1'' 0, arrive ''10.0.0.1'' 10, arrive ''10.0.0.1'' 3600,
                  arrive ''10.0.0.1'' 3610]
   \<and> accepted rl1 limiter_init
        [arrive ''10.0.0.1'' 0, arrive ''10.0.0.1'' 10, arrive ''10.0.0.1'' 3600,
         arrive ''10.0.0.1'' 3610]
       = [arrive ''10.0.0.1'' 0, arrive ''10.0.0.1'' 3610]
   \<and> int (length (filter (\<lambda>a. is_authenticated (request a) = False
                            \<and> get_client_ip (request a) = ''10.0.0.1'' \<and> 10 < t_record a
                            \<and> t_record a \<le> 10 + real_of_int (window_size rl1))
                    (accepted rl1 limiter_init
                       [arrive ''10.0.0.1'' 0, arrive ''10.0.0.1'' 10, arrive ''10.0.0.1'' 3600,
                        arrive ''10.0.0.1'' 3610])))
       \<le> max 0 (anonymous_limit rl1)
   \<and> should_rate_limit (path (request (arrive ''10.0.0.1'' 10)))
   \<and> limit_for rl1 (request (arrive ''10.0.0.1'' 10))
       \<le> int (length (pruned rl1 (arrive ''10.0.0.1'' 10)
                 (serve rl1 limiter_init [arrive ''10.0.0.1'' 0])))
   \<and> fst (dispatch rl1 (arrive ''10.0.0.1'' 10) (serve rl1 limiter_init [arrive ''10.0.0.1'' 0]))
       = TooManyRequests 3600
   \<and> records_of (snd (dispatch rl1 (arrive ''10.0.0.1'' 10)
                       (serve rl1 limiter_init [arrive ''10.0.0.1'' 0]))) ''10.0.0.1'' = [0]"
  using accepted_in_window_bounded
    [of "[arrive ''10.0.0.1'' 0, arrive ''10.0.0.1'' 10, arrive ''10.0.0.1'' 3600,
          arrive ''10.0.0.1'' 3610]" "''10.0.0.1''" 10 rl1 False "arrive ''10.0.0.1'' 10"
        "serve rl1 limiter_init [arrive ''10.0.0.1'' 0]"]
  by (simp add: rl_defs)

text \<open>
  C6, amended. A check that finds the quota used up creates the block entry at
  \<open>now + block_time\<close> and answers with \<open>retry_after = block_time\<close>. While the entry
  of a client exists and \<open>now < unblock_time\<close>, \<open>dispatch\<close> denies the request, leaves
  the state as it is and answers with \<open>unblock_time - now\<close> rounded down to whole
  seconds (\<open>int(unblock_time - now)\<close>), which does not grow as time passes. At the
  first check with \<open>now \<ge> unblock_time\<close> the entry is removed, and the request is
  treated as that of a client with no entry: it goes on to the window check.
\<close>

theorem block_entry_lifecycle:
  "(limit_for rl req \<le> int (length (filter (\<lambda>x. x > t - real_of_int (window_size rl)) (records_of s c)))
      \<longrightarrow> fst (check_rate_limit rl t c req s) = (True, block_time rl)
          \<and> blocked_clients (snd (check_rate_limit rl t c req s)) c
              = Some (t + real_of_int (block_time rl)))
   \<and> (should_rate_limit (path (request a1))
        \<and> blocked_clients s1 (get_client_ip (request a1)) = Some u1 \<and> t_block a1 < u1
      \<longrightarrow> dispatch rl a1 s1 = (TooManyRequests \<lfloor>u1 - t_block a1\<rfloor>, s1))
   \<and> (t1 \<le> t2 \<and> t2 < u2 \<longrightarrow> py_int (u2 - t2) \<le> py_int (u2 - t1))
   \<and> (blocked_clients s3 c3 = Some u3 \<and> u3 \<le> t3
      \<longrightarrow> is_client_blocked t3 c3 s3
            = ((False, 0), s3\<lparr>blocked_clients := (blocked_clients s3)(c3 := None)\<rparr>))
   \<and> (should_rate_limit (path (request a4))
        \<and> blocked_clients s4 (get_client_ip (request a4)) = Some u4 \<and> u4 \<le> t_block a4
      \<longrightarrow> dispatch rl a4 s4
            = dispatch rl a4
                (s4\<lparr>blocked_clients := (blocked_clients s4)(get_client_ip (request a4) := None)\<rparr>))"
proof -
  have one: "limit_for rl req \<le> int (length (filter (\<lambda>x. x > t - real_of_int (window_size rl)) (records_of s c)))
      \<longrightarrow> fst (check_rate_limit rl t c req s) = (True, block_time rl)
          \<and> blocked_clients (snd (check_rate_limit rl t c req s)) c
              = Some (t + real_of_int (block_time rl))"
    by (auto simp: check_rate_limit_def records_of_def Let_def split: option.splits)
  have two: "should_rate_limit (path (request a1))
        \<and> blocked_clients s1 (get_client_ip (request a1)) = Some u1 \<and> t_block a1 < u1
      \<longrightarrow> dispatch rl a1 s1 = (TooManyRequests \<lfloor>u1 - t_block a1\<rfloor>, s1)"
    by (simp add: dispatch_def is_client_blocked_def py_int_def)
  have three: "t1 \<le> t2 \<and> t2 < u2 \<longrightarrow> py_int (u2 - t2) \<le> py_int (u2 - t1)"
    by (auto simp: py_int_def intro: floor_mono)
  have four: "blocked_clients s3 c3 = Some u3 \<and> u3 \<le> t3
      \<longrightarrow> is_client_blocked t3 c3 s3
            = ((False, 0), s3\<lparr>blocked_clients := (blocked_clients s3)(c3 := None)\<rparr>)"
    by (simp add: is_client_blocked_def)
  have five: "should_rate_limit (path (request a4))
        \<and> blocked_clients s4 (get_client_ip (request a4)) = Some u4 \<and> u4 \<le> t_block a4
      \<longrightarrow> dispatch rl a4 s4
            = dispatch rl a4
                (s4\<lparr>blocked_clients := (blocked_clients s4)(get_client_ip (request a4) := None)\<rparr>)"
    by (simp add: dispatch_def is_client_blocked_def)
  from one two three four five show ?thesis by blast
qed

theorem block_entry_lifecycle_witness:
  "fst (check_rate_limit rl1 1 ''10.0.0.1'' (request (arrive ''10.0.0.1'' 1))
          (serve rl1 limiter_init [arrive ''10.0.0.1'' 0])) = (True, 3600)
   \<and> blocked_clients (snd (check_rate_limit rl1 1 ''10.0.0.1'' (request (arrive ''10.0.0.1'' 1))
          (serve rl1 limiter_init [arrive ''10.0.0.1'' 0]))) ''10.0.0.1'' = Some 3601
   \<and> blocked_clients (serve rl1 limiter_init [arrive ''10.0.0.1'' 0, arrive ''10.0.0.1'' 1])
        ''10.0.0.1'' = Some 3601
   \<and> dispatch rl1 (arrive ''10.0.0.1'' (3/2))
        (serve rl1 limiter_init [arrive ''10.0.0.1'' 0, arrive ''10.0.0.1'' 1])
       = (TooManyRequests 3599,
          serve rl1 limiter_init [arrive ''10.0.0.1'' 0, arrive ''10.0.0.1'' 1])
   \<and> py_int (3601 - 3/2) \<le> py_int (3601 - 1)
   \<and> blocked_clients (snd (is_client_blocked 3601 ''10.0.0.1''
          (serve rl1 limiter_init [arrive ''10.0.0.1'' 0, arrive ''10.0.0.1'' 1])))
        ''10.0.0.1'' = None
   \<and> fst (dispatch rl1 (arrive ''10.0.0.1'' 3601)
          (serve rl1 limiter_init [arrive ''10.0.0.1'' 0, arrive ''10.0.0.1'' 1])) = Passed"
  using block_entry_lifecycle
    [where rl = rl1 and req = "request (arrive ''10.0.0.1'' 1)" and t = 1
       and s = "serve rl1 limiter_init [arrive ''10.0.0.1'' 0]" and c = "''10.0.0.1''"
       and ?a1.0 = "arrive ''10.0.0.1'' (3/2)"
       and ?s1.0 = "serve rl1 limiter_init [arrive ''10.0.0.1'' 0, arrive ''10.0.0.1'' 1]"
       and ?u1.0 = 3601 and ?t1.0 = 1 and ?t2.0 = "3/2" and ?u2.0 = 3601
       and ?s3.0 = "serve rl1 limiter_init [arrive ''10.0.0.1'' 0, arrive ''10.0.0.1'' 1]"
       and ?c3.0 = "''10.0.0.1''" and ?u3.0 = 3601 and ?t3.0 = 3601
       and ?a4.0 = "arrive ''10.0.0.1'' 3601"
       and ?s4.0 = "serve rl1 limiter_init [arrive ''10.0.0.1'' 0, arrive ''10.0.0.1'' 1]"
       and ?u4.0 = 3601]
  by (simp add: rl_defs)

text \<open>
  C6, as the spec states it, with \<open>retry_after = unblock_time - now\<close>: a client blocked
  until 3601 that asks again at time 1.5 is told 3599 seconds, and not 3599.5.
\<close>

theorem retry_after_counterexample:
  "blocked_clients (serve rl1 limiter_init [arrive ''10.0.0.1'' 0, arrive ''10.0.0.1'' 1])
      ''10.0.0.1'' = Some 3601
   \<and> fst (dispatch rl1 (arrive ''10.0.0.1'' (3/2))
            (serve rl1 limiter_init [arrive ''10.0.0.1'' 0, arrive ''10.0.0.1'' 1]))
       = TooManyRequests 3599
   \<and> real_of_int 3599 \<noteq> 3601 - 3/2"
  by (simp add: rl_defs)

section \<open>Properties of the search pipeline\<close>

text \<open>\<open>SearchRepository\<close> itself never raises.\<close>

lemma search_repository_quiet: "repository_quiet (with_repository repo d)"
  by (simp add: repository_quiet_def with_repository_def repository_save_attributes_batch_def
      repository_save_store_search_def repository_save_search_metrics_def)

lemma reliableD [simp]: "reliable e \<Longrightarrow> io_ok e n"
  by (simp add: reliable_def)

lemma files_initialize_search:
  "reliable e \<Longrightarrow> files (initialize_search e sid names w) =
     (files w)(sid \<mapsto> \<lparr>search_id = sid, status = PROCESSING, start_time = clock e (tick w),
        end_time = None, elapsed_time_ms = 0,
        stores_searched = map (\<lambda>n. \<lparr>store_name = n, store_status = PROCESSING, time_ms = 0\<rparr>) names,
        attributes_recognized = [], result_count = 0\<rparr>)"
  by (simp add: initialize_search_def now_def save_state_def)

lemma files_update_search_status:
  "reliable e \<Longrightarrow> files w sid = Some r \<Longrightarrow>
     \<exists>t el. files (update_search_status e sid s w) =
       (files w)(sid \<mapsto> r\<lparr>status := s, end_time := t, elapsed_time_ms := el\<rparr>)"
proof -
  assume a: "reliable e" "files w sid = Some r"
  show ?thesis
  proof (cases "s = COMPLETED \<or> s = FAILED")
    case True
    with a show ?thesis
      by (auto simp: update_search_status_def load_state_def save_state_def now_def Let_def)
  next
    case False
    with a have "files (update_search_status e sid s w) =
       (files w)(sid \<mapsto> r\<lparr>status := s, end_time := end_time r, elapsed_time_ms := elapsed_time_ms r\<rparr>)"
      by (auto simp: update_search_status_def load_state_def save_state_def now_def Let_def)
    then show ?thesis by blast
  qed
qed

lemma files_update_store_status:
  "reliable e \<Longrightarrow> files w sid = Some r \<Longrightarrow>
     files (update_store_status e sid n s t w) =
       (files w)(sid \<mapsto> r\<lparr>stores_searched := update_store_entry n s t (stores_searched r)\<rparr>)"
  by (simp add: update_store_status_def load_state_def save_state_def)

lemma files_update_attributes:
  "reliable e \<Longrightarrow> files w sid = Some r \<Longrightarrow>
     files (update_attributes e sid attrs w) = (files w)(sid \<mapsto> r\<lparr>attributes_recognized := attrs\<rparr>)"
  by (simp add: update_attributes_def load_state_def save_state_def)

lemma files_update_result_count:
  "reliable e \<Longrightarrow> files w sid = Some r \<Longrightarrow>
     files (update_result_count e sid n w) = (files w)(sid \<mapsto> r\<lparr>result_count := n\<rparr>)"
  by (simp add: update_result_count_def load_state_def save_state_def)

lemma files_now: "files (snd (now e w)) = files w"
  by (simp add: now_def)

lemma files_save_image: "files (snd (save_image e svc img sid w)) = files w"
  by (simp add: save_image_def)

lemma save_image_result:
  "reliable e \<Longrightarrow> fst (save_image e svc img sid w) =
     (if read_ok img then Some (image_location svc img sid) else None)"
  by (simp add: save_image_def)

lemma search_one_store_raises:
  assumes "reliable e" "files w sid = Some r" "repository_quiet d"
    and "search_store d i (store_value st) attrs sid = Inl ex"
  shows "\<exists>w'. search_one_store d e sid attrs t0 i st acc w = (w', acc, None) \<and>
     files w' = (files w)(sid \<mapsto> r\<lparr>stores_searched :=
        update_store_entry (store_value st) FAILED 0
          (update_store_entry (store_value st) PROCESSING 0 (stores_searched r))\<rparr>)"
proof -
  from assms(3) have q: "\<not> isl (save_store_search d i (store_value st) False None)"
    by (simp add: repository_quiet_def)
  let ?w1 = "update_store_status e sid (store_value st) PROCESSING 0 w"
  have f1: "files ?w1 = (files w)(sid \<mapsto> r\<lparr>stores_searched :=
      update_store_entry (store_value st) PROCESSING 0 (stores_searched r)\<rparr>)"
    using assms(1,2) by (rule files_update_store_status)
  then have f1': "files ?w1 sid = Some (r\<lparr>stores_searched :=
      update_store_entry (store_value st) PROCESSING 0 (stores_searched r)\<rparr>)"
    by simp
  have f2: "files (update_store_status e sid (store_value st) FAILED 0 ?w1) =
     (files w)(sid \<mapsto> r\<lparr>stores_searched :=
        update_store_entry (store_value st) FAILED 0
          (update_store_entry (store_value st) PROCESSING 0 (stores_searched r))\<rparr>)"
    using files_update_store_status [OF assms(1) f1', of "store_value st" FAILED 0] f1 by simp
  from q assms(4) f2 show ?thesis
    by (auto simp: search_one_store_def store_failed_def Let_def split: sum.splits)
qed

lemma search_one_store_returns:
  assumes "reliable e" "files w sid = Some r" "repository_quiet d"
    and "search_store d i (store_value st) attrs sid = Inr ps"
  shows "\<exists>w' ms. search_one_store d e sid attrs t0 i st acc w =
       (w', ((fst acc)(store_value st \<mapsto> ps), snd acc + int (length ps)), None) \<and>
     files w' = (files w)(sid \<mapsto> r\<lparr>stores_searched :=
        update_store_entry (store_value st) COMPLETED ms
          (update_store_entry (store_value st) PROCESSING 0 (stores_searched r))\<rparr>)"
proof -
  let ?w1 = "update_store_status e sid (store_value st) PROCESSING 0 w"
  let ?ms = "total_ms (fst (now e ?w1) - t0)"
  let ?w2 = "snd (now e ?w1)"
  from assms(3) have q: "\<not> isl (save_store_search d i (store_value st) True (Some ?ms))"
    by (simp add: repository_quiet_def)
  have f1: "files ?w1 = (files w)(sid \<mapsto> r\<lparr>stores_searched :=
      update_store_entry (store_value st) PROCESSING 0 (stores_searched r)\<rparr>)"
    using assms(1,2) by (rule files_update_store_status)
  then have f1': "files ?w2 sid = Some (r\<lparr>stores_searched :=
      update_store_entry (store_value st) PROCESSING 0 (stores_searched r)\<rparr>)"
    by (simp add: files_now)
  have f2: "files (update_store_status e sid (store_value st) COMPLETED ?ms ?w2) =
     (files w)(sid \<mapsto> r\<lparr>stores_searched :=
        update_store_entry (store_value st) COMPLETED ?ms
          (update_store_entry (store_value st) PROCESSING 0 (stores_searched r))\<rparr>)"
    using files_update_store_status [OF assms(1) f1', of "store_value st" COMPLETED ?ms] f1
    by (simp add: files_now)
  from q assms(4) f2 show ?thesis
    by (auto simp: search_one_store_def Let_def split: sum.splits prod.splits)
qed


lemma store_value_inj [simp]: "store_value a = store_value b \<longleftrightarrow> a = b"
  by (cases a; cases b) simp_all

lemma find_update_same:
  "find (\<lambda>x. store_name x = n) (update_store_entry n s t xs) =
     map_option (\<lambda>x. x\<lparr>store_status := s, time_ms := t\<rparr>) (find (\<lambda>x. store_name x = n) xs)"
  by (induction xs) auto

lemma find_update_other:
  "m \<noteq> n \<Longrightarrow> find (\<lambda>x. store_name x = m) (update_store_entry n s t xs) =
     find (\<lambda>x. store_name x = m) xs"
  by (induction xs) auto

lemma find_name_Some:
  "n \<in> store_name ` set xs \<Longrightarrow> \<exists>x. find (\<lambda>x. store_name x = n) xs = Some x"
  by (induction xs) auto

lemma search_one_store_effect:
  assumes rel: "reliable e" and q: "repository_quiet d" and f: "files w sid = Some r"
    and mem: "store_value st \<in> store_name ` set (stores_searched r)"
  shows "\<exists>w' acc' xs x. search_one_store d e sid attrs t0 i st acc w = (w', acc', None)
      \<and> files w' = (files w)(sid \<mapsto> r\<lparr>stores_searched := xs\<rparr>)
      \<and> map store_name xs = map store_name (stores_searched r)
      \<and> snd acc' = snd acc + returned_count (search_store d i (store_value st) attrs sid)
      \<and> (\<forall>n. n \<noteq> store_value st \<longrightarrow>
            find (\<lambda>x. store_name x = n) xs = find (\<lambda>x. store_name x = n) (stores_searched r))
      \<and> find (\<lambda>x. store_name x = store_value st) xs = Some x
      \<and> store_status x = store_outcome (search_store d i (store_value st) attrs sid)
      \<and> (isl (search_store d i (store_value st) attrs sid) \<longrightarrow> time_ms x = 0)"
proof -
  let ?n = "store_value st"
  let ?xs = "stores_searched r"
  from find_name_Some [OF mem] obtain x0 where x0: "find (\<lambda>x. store_name x = ?n) ?xs = Some x0"
    by blast
  show ?thesis
  proof (cases "search_store d i ?n attrs sid")
    case (Inl ex)
    from search_one_store_raises [OF rel f q Inl, of t0 acc]
    obtain w' where w': "search_one_store d e sid attrs t0 i st acc w = (w', acc, None)"
      "files w' = (files w)(sid \<mapsto> r\<lparr>stores_searched :=
        update_store_entry ?n FAILED 0 (update_store_entry ?n PROCESSING 0 ?xs)\<rparr>)"
      by blast
    let ?ys = "update_store_entry ?n FAILED 0 (update_store_entry ?n PROCESSING 0 ?xs)"
    have "find (\<lambda>x. store_name x = ?n) ?ys = Some (x0\<lparr>store_status := FAILED, time_ms := 0\<rparr>)"
      by (simp add: find_update_same x0)
    with w' Inl show ?thesis
      by (intro exI [of _ w'] exI [of _ acc] exI [of _ ?ys]
          exI [of _ "x0\<lparr>store_status := FAILED, time_ms := 0\<rparr>"])
        (simp add: names_update_store_entry find_update_other store_outcome_def
          returned_count_def)
  next
    case (Inr ps)
    from search_one_store_returns [OF rel f q Inr, of t0 acc]
    obtain w' ms where w': "search_one_store d e sid attrs t0 i st acc w =
        (w', ((fst acc)(?n \<mapsto> ps), snd acc + int (length ps)), None)"
      "files w' = (files w)(sid \<mapsto> r\<lparr>stores_searched :=
        update_store_entry ?n COMPLETED ms (update_store_entry ?n PROCESSING 0 ?xs)\<rparr>)"
      by blast
    let ?ys = "update_store_entry ?n COMPLETED ms (update_store_entry ?n PROCESSING 0 ?xs)"
    have "find (\<lambda>x. store_name x = ?n) ?ys = Some (x0\<lparr>store_status := COMPLETED, time_ms := ms\<rparr>)"
      by (simp add: find_update_same x0)
    with w' Inr show ?thesis
      by (intro exI [of _ w'] exI [of _ "((fst acc)(?n \<mapsto> ps), snd acc + int (length ps))"]
          exI [of _ ?ys] exI [of _ "x0\<lparr>store_status := COMPLETED, time_ms := ms\<rparr>"])
        (simp add: names_update_store_entry find_update_other store_outcome_def
          returned_count_def)
  qed
qed


lemma search_stores_effect:
  assumes rel: "reliable e" and q: "repository_quiet d"
  shows "files w sid = Some r \<Longrightarrow>
    store_value ` set stores \<subseteq> store_name ` set (stores_searched r) \<Longrightarrow>
    \<exists>w' acc' xs. search_stores d e sid attrs t0 i stores acc w = (w', acc', None)
      \<and> files w' = (files w)(sid \<mapsto> r\<lparr>stores_searched := xs\<rparr>)
      \<and> map store_name xs = map store_name (stores_searched r)
      \<and> snd acc' = snd acc + (\<Sum>k<length stores.
            returned_count (search_store d (i + k) (store_value (stores ! k)) attrs sid))
      \<and> (\<forall>n. n \<notin> store_value ` set stores \<longrightarrow>
            find (\<lambda>x. store_name x = n) xs = find (\<lambda>x. store_name x = n) (stores_searched r))
      \<and> (\<forall>k<length stores. stores ! k \<notin> set (drop (Suc k) stores) \<longrightarrow>
            (\<exists>x. find (\<lambda>x. store_name x = store_value (stores ! k)) xs = Some x
               \<and> store_status x =
                   store_outcome (search_store d (i + k) (store_value (stores ! k)) attrs sid)
               \<and> (isl (search_store d (i + k) (store_value (stores ! k)) attrs sid)
                    \<longrightarrow> time_ms x = 0)))"
proof (induction stores arbitrary: i acc w r)
  case Nil
  then show ?case
    by (intro exI [of _ w] exI [of _ acc] exI [of _ "stores_searched r"]) auto
next
  case (Cons st rest)
  let ?n = "store_value st"
  let ?out = "\<lambda>j s. search_store d j (store_value s) attrs sid"
  from Cons.prems have mem: "?n \<in> store_name ` set (stores_searched r)"
    and sub: "store_value ` set rest \<subseteq> store_name ` set (stores_searched r)"
    by auto
  from search_one_store_effect [OF rel q Cons.prems(1) mem, of attrs t0 i acc]
  obtain w1 acc1 xs1 x1 where one:
    "search_one_store d e sid attrs t0 i st acc w = (w1, acc1, None)"
    "files w1 = (files w)(sid \<mapsto> r\<lparr>stores_searched := xs1\<rparr>)"
    "map store_name xs1 = map store_name (stores_searched r)"
    "snd acc1 = snd acc + returned_count (?out i st)"
    "\<forall>n. n \<noteq> ?n \<longrightarrow>
       find (\<lambda>x. store_name x = n) xs1 = find (\<lambda>x. store_name x = n) (stores_searched r)"
    "find (\<lambda>x. store_name x = ?n) xs1 = Some x1"
    "store_status x1 = store_outcome (?out i st)"
    "isl (?out i st) \<longrightarrow> time_ms x1 = 0"
    by blast
  let ?r1 = "r\<lparr>stores_searched := xs1\<rparr>"
  have f1: "files w1 sid = Some ?r1" using one(2) by simp
  have "store_name ` set xs1 = store_name ` set (stores_searched r)"
    using one(3) by (metis set_map)
  with sub have sub1: "store_value ` set rest \<subseteq> store_name ` set (stores_searched ?r1)"
    by simp
  from Cons.IH [OF f1 sub1, of "Suc i" acc1]
  obtain w2 acc2 xs2 where two:
    "search_stores d e sid attrs t0 (Suc i) rest acc1 w1 = (w2, acc2, None)"
    "files w2 = (files w1)(sid \<mapsto> ?r1\<lparr>stores_searched := xs2\<rparr>)"
    "map store_name xs2 = map store_name (stores_searched ?r1)"
    "snd acc2 = snd acc1 + (\<Sum>k<length rest. returned_count (?out (Suc i + k) (rest ! k)))"
    "\<forall>n. n \<notin> store_value ` set rest \<longrightarrow>
       find (\<lambda>x. store_name x = n) xs2 = find (\<lambda>x. store_name x = n) (stores_searched ?r1)"
    "\<forall>k<length rest. rest ! k \<notin> set (drop (Suc k) rest) \<longrightarrow>
       (\<exists>x. find (\<lambda>x. store_name x = store_value (rest ! k)) xs2 = Some x
          \<and> store_status x = store_outcome (?out (Suc i + k) (rest ! k))
          \<and> (isl (?out (Suc i + k) (rest ! k)) \<longrightarrow> time_ms x = 0))"
    by blast
  have run: "search_stores d e sid attrs t0 i (st # rest) acc w = (w2, acc2, None)"
    using one(1) two(1) by simp
  have fl: "files w2 = (files w)(sid \<mapsto> r\<lparr>stores_searched := xs2\<rparr>)"
    using two(2) one(2) by simp
  have nm: "map store_name xs2 = map store_name (stores_searched r)"
    using two(3) one(3) by simp
  have sm: "snd acc2 = snd acc + (\<Sum>k<length (st # rest).
      returned_count (?out (i + k) ((st # rest) ! k)))"
  proof -
    have sh: "(\<Sum>k<length (st # rest). G k) = G 0 + (\<Sum>k<length rest. G (Suc k))"
      for G :: "nat \<Rightarrow> int"
      by (simp add: sum.lessThan_Suc_shift del: sum.lessThan_Suc)
    show ?thesis unfolding sh using two(4) one(4) by simp
  qed
  have fr: "\<forall>n. n \<notin> store_value ` set (st # rest) \<longrightarrow>
      find (\<lambda>x. store_name x = n) xs2 = find (\<lambda>x. store_name x = n) (stores_searched r)"
    using two(5) one(5) by auto
  have lst: "\<forall>k<length (st # rest). (st # rest) ! k \<notin> set (drop (Suc k) (st # rest)) \<longrightarrow>
       (\<exists>x. find (\<lambda>x. store_name x = store_value ((st # rest) ! k)) xs2 = Some x
          \<and> store_status x = store_outcome (?out (i + k) ((st # rest) ! k))
          \<and> (isl (?out (i + k) ((st # rest) ! k)) \<longrightarrow> time_ms x = 0))"
  proof (intro allI impI)
    fix k assume k: "k < length (st # rest)"
      and last: "(st # rest) ! k \<notin> set (drop (Suc k) (st # rest))"
    show "\<exists>x. find (\<lambda>x. store_name x = store_value ((st # rest) ! k)) xs2 = Some x
          \<and> store_status x = store_outcome (?out (i + k) ((st # rest) ! k))
          \<and> (isl (?out (i + k) ((st # rest) ! k)) \<longrightarrow> time_ms x = 0)"
    proof (cases k)
      case 0
      with last have "st \<notin> set rest" by simp
      then have "?n \<notin> store_value ` set rest" by auto
      with two(5) have "find (\<lambda>x. store_name x = ?n) xs2 = Some x1"
        using one(6) by simp
      with one(7,8) 0 show ?thesis by simp
    next
      case (Suc k')
      with k last have "k' < length rest" "rest ! k' \<notin> set (drop (Suc k') rest)"
        by auto
      with two(6) Suc show ?thesis by simp
    qed
  qed
  from run fl nm sm fr lst show ?case by blast
qed


lemma record_kept_save_state:
  "files w sid \<noteq> None \<Longrightarrow> files (save_state e sid' st w) sid \<noteq> None"
  by (simp add: save_state_def)

lemma record_kept_load_state: "files (snd (load_state e sid' w)) = files w"
  by (simp add: load_state_def split: option.splits)







lemma record_after_initialize:
  "reliable e \<Longrightarrow> files (initialize_search e sid names w) sid \<noteq> None"
  by (simp add: files_initialize_search)


lemma process_search_effect:
  assumes rel: "reliable e" and q: "repository_quiet d" and rd: "read_ok img"
    and an: "analyze d (image_location svc img sid) = Inr (attrs, ms)"
  shows "\<exists>r. files (process_search d e svc img stores sid w) = (files w)(sid \<mapsto> r)
      \<and> status r = COMPLETED \<and> attributes_recognized r = attrs
      \<and> result_count r = (\<Sum>k<length stores.
            returned_count (search_store d k (store_value (stores ! k)) attrs sid))
      \<and> map store_name (stores_searched r) = map store_value stores
      \<and> (\<forall>k<length stores. stores ! k \<notin> set (drop (Suc k) stores) \<longrightarrow>
            (\<exists>x. entry_of r (store_value (stores ! k)) = Some x
               \<and> store_status x =
                   store_outcome (search_store d k (store_value (stores ! k)) attrs sid)
               \<and> (isl (search_store d k (store_value (stores ! k)) attrs sid)
                    \<longrightarrow> time_ms x = 0)))"
proof -
  let ?names = "map store_value stores"
  obtain t0 w0 where n0: "now e w = (t0, w0)" and f0: "files w0 = files w"
    by (simp add: now_def)
  define w1 where "w1 = initialize_search e sid ?names w0"
  define r1 where "r1 = \<lparr>search_id = sid, status = PROCESSING, start_time = clock e (tick w0),
        end_time = None, elapsed_time_ms = 0,
        stores_searched = map (\<lambda>n. \<lparr>store_name = n, store_status = PROCESSING, time_ms = 0\<rparr>) ?names,
        attributes_recognized = [], result_count = 0\<rparr>"
  have f1: "files w1 = (files w)(sid \<mapsto> r1)"
    using files_initialize_search [OF rel, of sid ?names w0] f0 by (simp add: w1_def r1_def)
  obtain w2 where s2: "save_image e svc img sid w1 = (Some (image_location svc img sid), w2)"
    and f2: "files w2 = files w1"
    using rel rd by (simp add: save_image_def)
  define w3 where "w3 = update_attributes e sid attrs w2"
  define r3 where "r3 = r1\<lparr>attributes_recognized := attrs\<rparr>"
  have f3: "files w3 = (files w)(sid \<mapsto> r3)"
    using files_update_attributes [OF rel, of w2 sid r1 attrs] f2 f1
    by (simp add: w3_def r3_def)
  from q obtain ok where b: "save_attributes_batch d attrs ms = Inr ok"
    by (auto simp: repository_quiet_def) (metis sum.collapse(2))
  obtain t4 w4 where n4: "now e w3 = (t4, w4)" and f4: "files w4 = files w3"
    by (simp add: now_def)
  have f4': "files w4 sid = Some r3" using f4 f3 by simp
  have names3: "stores_searched r3 =
      map (\<lambda>n. \<lparr>store_name = n, store_status = PROCESSING, time_ms = 0\<rparr>) ?names"
    by (simp add: r3_def r1_def)
  then have names3': "map store_name (stores_searched r3) = ?names"
    by (simp add: comp_def)
  then have sub: "store_value ` set stores \<subseteq> store_name ` set (stores_searched r3)"
    by (metis set_map order_refl)
  from search_stores_effect [OF rel q f4' sub, of attrs t4 0 "(Map.empty, 0)"]
  obtain w5 acc xs where loop:
    "search_stores d e sid attrs t4 0 stores (Map.empty, 0) w4 = (w5, acc, None)"
    "files w5 = (files w4)(sid \<mapsto> r3\<lparr>stores_searched := xs\<rparr>)"
    "map store_name xs = map store_name (stores_searched r3)"
    "snd acc = snd (Map.empty :: string \<rightharpoonup> Product list, 0::int) + (\<Sum>k<length stores.
        returned_count (search_store d (0 + k) (store_value (stores ! k)) attrs sid))"
    "\<forall>k<length stores. stores ! k \<notin> set (drop (Suc k) stores) \<longrightarrow>
       (\<exists>x. find (\<lambda>x. store_name x = store_value (stores ! k)) xs = Some x
          \<and> store_status x =
              store_outcome (search_store d (0 + k) (store_value (stores ! k)) attrs sid)
          \<and> (isl (search_store d (0 + k) (store_value (stores ! k)) attrs sid)
               \<longrightarrow> time_ms x = 0))"
    by blast
  obtain sr tot where acc: "acc = (sr, tot)" by (cases acc)
  define r5 where "r5 = r3\<lparr>stores_searched := xs\<rparr>"
  obtain t6 w6 where n6: "now e w5 = (t6, w6)" and f6: "files w6 = files w5"
    by (simp add: now_def)
  have f6': "files w6 sid = Some r5" using f6 loop(2) by (simp add: r5_def)
  define w7 where "w7 = update_result_count e sid tot w6"
  have f7: "files w7 = (files w)(sid \<mapsto> r5\<lparr>result_count := tot\<rparr>)"
    using files_update_result_count [OF rel f6', of tot] f6 loop(2) f4 f3
    by (simp add: w7_def)
  then have f7': "files w7 sid = Some (r5\<lparr>result_count := tot\<rparr>)" by simp
  define w8 where "w8 = update_search_status e sid COMPLETED w7"
  from files_update_search_status [OF rel f7', of COMPLETED]
  obtain t el where f8: "files w8 =
      (files w)(sid \<mapsto> r5\<lparr>result_count := tot, status := COMPLETED, end_time := t,
                             elapsed_time_ms := el\<rparr>)"
    using f7 by (auto simp: w8_def)
  obtain t9 w9 where n9: "now e w8 = (t9, w9)" and f9: "files w9 = files w8"
    by (simp add: now_def)
  from q obtain ok2 where m: "save_search_metrics d (total_ms (t9 - t0)) ms
      (total_ms (t6 - t4)) tot = Inr ok2"
    by (auto simp: repository_quiet_def) (metis sum.collapse(2))
  have body: "process_search_body d e svc img stores sid t0 w0 = (w9, None)"
    using s2 an b n4 loop(1) acc n6 n9 m
    by (simp add: process_search_body_def Let_def w1_def [symmetric] w3_def [symmetric]
        w7_def [symmetric] w8_def [symmetric])
  have res: "process_search d e svc img stores sid w = w9"
    using n0 body by (simp add: process_search_def)
  let ?r = "r5\<lparr>result_count := tot, status := COMPLETED, end_time := t, elapsed_time_ms := el\<rparr>"
  have "files (process_search d e svc img stores sid w) = (files w)(sid \<mapsto> ?r)"
    using res f9 f8 by simp
  moreover have "status ?r = COMPLETED" by simp
  moreover have "attributes_recognized ?r = attrs" by (simp add: r5_def r3_def)
  moreover have "result_count ?r = (\<Sum>k<length stores.
            returned_count (search_store d k (store_value (stores ! k)) attrs sid))"
    using loop(4) acc by simp
  moreover have "map store_name (stores_searched ?r) = map store_value stores"
    using loop(3) names3' by (simp add: r5_def)
  moreover have "\<forall>k<length stores. stores ! k \<notin> set (drop (Suc k) stores) \<longrightarrow>
            (\<exists>x. entry_of ?r (store_value (stores ! k)) = Some x
               \<and> store_status x =
                   store_outcome (search_store d k (store_value (stores ! k)) attrs sid)
               \<and> (isl (search_store d k (store_value (stores ! k)) attrs sid)
                    \<longrightarrow> time_ms x = 0))"
    using loop(5) by (simp add: entry_of_def r5_def)
  ultimately show ?thesis by blast
qed

lemmas run_defs = search_one_store_def
  store_failed_def save_image_def image_location_def initialize_search_def
  update_search_status_def update_store_status_def update_attributes_def
  update_result_count_def load_state_def save_state_def now_def total_ms_def
  example_deps_def example_service_def example_image_def example_env_def failing_env_def
  empty_world_def example_attributes_def Let_def

lemma process_search_steps:
  assumes "snd (now e w) = w0"
    and "initialize_search e sid (map store_value stores) w0 = w1"
    and "snd (save_image e svc img sid w1) = w2"
    and "fst (save_image e svc img sid w1) = Some loc"
    and "analyze d loc = Inr (attrs, ms)"
    and "update_attributes e sid attrs w2 = w3"
    and "save_attributes_batch d attrs ms = Inr ok"
    and "snd (now e w3) = w4"
    and "fst (search_stores d e sid attrs (fst (now e w3)) 0 stores (Map.empty, 0) w4) = w5"
    and "snd (fst (snd (search_stores d e sid attrs (fst (now e w3)) 0 stores (Map.empty, 0) w4)))
           = tot"
    and "snd (snd (search_stores d e sid attrs (fst (now e w3)) 0 stores (Map.empty, 0) w4))
           = None"
    and "update_result_count e sid tot (snd (now e w5)) = w7"
    and "update_search_status e sid COMPLETED w7 = w8"
    and "save_search_metrics d (total_ms (fst (now e w8) - fst (now e w))) ms
           (total_ms (fst (now e w5) - fst (now e w3))) tot = Inr ok2"
  shows "process_search d e svc img stores sid w = snd (now e w8)"
  using assms
  by (simp add: process_search_def process_search_body_def Let_def case_prod_beta)






lemma process_search_not_completed:
  assumes rel: "reliable e"
    and bad: "\<not> read_ok img \<or> isl (analyze d (image_location svc img sid))"
  shows "\<exists>r. files (process_search d e svc img stores sid w) sid = Some r \<and> status r = FAILED"
proof -
  let ?names = "map store_value stores"
  obtain t0 w0 where n0: "now e w = (t0, w0)" by (simp add: now_def)
  define w1 where "w1 = initialize_search e sid ?names w0"
  have k1: "files w1 sid \<noteq> None" unfolding w1_def using rel by (rule record_after_initialize)
  obtain u w2 where s2: "save_image e svc img sid w1 = (u, w2)" by (metis prod.exhaust)
  have f2: "files w2 = files w1" using files_save_image [of e svc img sid w1] s2 by simp
  have u: "u = (if read_ok img then Some (image_location svc img sid) else None)"
    using save_image_result [OF rel, of svc img sid w1] s2 by simp
  from k1 f2 obtain r2 where r2: "files w2 sid = Some r2" by auto
  from files_update_search_status [OF rel r2, of FAILED]
  have fin: "\<exists>r. files (update_search_status e sid FAILED w2) sid = Some r \<and> status r = FAILED"
    by auto
  show ?thesis
  proof (cases "read_ok img")
    case False
    with u s2 n0 have "process_search d e svc img stores sid w = update_search_status e sid FAILED w2"
      by (simp add: process_search_def process_search_body_def Let_def w1_def [symmetric])
    with fin show ?thesis by simp
  next
    case True
    with bad obtain ex where "analyze d (image_location svc img sid) = Inl ex"
      by (cases "analyze d (image_location svc img sid)") auto
    with True u s2 n0
    have "process_search d e svc img stores sid w = update_search_status e sid FAILED w2"
      by (simp add: process_search_def process_search_body_def Let_def w1_def [symmetric])
    with fin show ?thesis by simp
  qed
qed

lemma find_distinct_nth:
  "distinct (map store_name xs) \<Longrightarrow> k < length xs \<Longrightarrow>
     find (\<lambda>x. store_name x = store_name (xs ! k)) xs = Some (xs ! k)"
proof (induction xs arbitrary: k)
  case Nil
  then show ?case by simp
next
  case (Cons x xs)
  show ?case
  proof (cases k)
    case 0
    then show ?thesis by simp
  next
    case (Suc j)
    with Cons.prems have j: "j < length xs" and d: "distinct (map store_name xs)"
      and nx: "store_name x \<notin> store_name ` set xs"
      by auto
    from j have "store_name (xs ! j) \<in> store_name ` set xs" by simp
    with nx have "store_name x \<noteq> store_name (xs ! j)" by metis
    with Cons.IH [OF d j] Suc show ?thesis by simp
  qed
qed

lemma distinct_not_in_drop:
  assumes "distinct xs" "k < length xs"
  shows "xs ! k \<notin> set (drop (Suc k) xs)"
proof -
  from assms(2) have "xs = take k xs @ xs ! k # drop (Suc k) xs"
    by (rule id_take_nth_drop)
  then have "distinct (take k xs @ xs ! k # drop (Suc k) xs)"
    using assms(1) by simp
  then show ?thesis by simp
qed


text \<open>
  C3, as the spec states it. The same store is requested twice; its first search
  returns three products and its second raises. The record is \<open>completed\<close> with
  \<open>result_count = 3\<close>, yet no entry of \<open>stores_searched\<close> is \<open>completed\<close>:
  \<open>update_store_status\<close> only ever writes the first entry of that name.
\<close>

theorem duplicate_store_counterexample:
  "status (the (files (process_search example_deps example_env example_service example_image
        [ZALANDO, ZALANDO] ''a1'' empty_world) ''a1'')) = COMPLETED
   \<and> result_count (the (files (process_search example_deps example_env example_service
        example_image [ZALANDO, ZALANDO] ''a1'' empty_world) ''a1'')) = 3
   \<and> map store_status (stores_searched (the (files (process_search example_deps example_env
        example_service example_image [ZALANDO, ZALANDO] ''a1'' empty_world) ''a1'')))
       = [FAILED, PROCESSING]"
proof -
  have "\<exists>w'. process_search example_deps example_env example_service example_image
     [ZALANDO, ZALANDO] ''a1'' empty_world = w'
     \<and> status (the (files w' ''a1'')) = COMPLETED
     \<and> result_count (the (files w' ''a1'')) = 3
     \<and> map store_status (stores_searched (the (files w' ''a1''))) = [FAILED, PROCESSING]"
    apply (rule exI)
    apply (rule conjI)
     apply (rule process_search_steps)
                  apply (simp add: run_defs)
                 apply (simp add: run_defs)
                apply (simp add: run_defs)
               apply (simp add: run_defs)
              apply (simp add: run_defs)
             apply (simp add: run_defs)
            apply (simp add: run_defs)
           apply (simp add: run_defs)
          apply (simp add: run_defs)
         apply (simp add: run_defs)
        apply (simp add: run_defs)
       apply (simp add: run_defs)
      apply (simp add: run_defs)
     apply (simp add: run_defs)
    apply (simp add: run_defs)
    done
  then show ?thesis by simp
qed

text \<open>
  C3, amended. The requested stores are pairwise distinct, no operation on the state
  file fails and the repository does not raise. If the persisted record is
  \<open>completed\<close>, then its \<open>result_count\<close> is the sum, over the stores whose
  sub-status is \<open>completed\<close>, of the number of products their search returned; the
  entries of \<open>stores_searched\<close> are the requested stores, in order; a store is
  \<open>completed\<close> exactly when its search returned and \<open>failed\<close> exactly when it raised.
\<close>

theorem result_count_sums_completed_stores:
  assumes rel: "reliable e" and q: "repository_quiet d" and dist: "distinct stores"
    and fin: "files (process_search d e svc img stores sid w) sid = Some r"
    and cmp: "status r = COMPLETED"
  shows "result_count r =
           (\<Sum>k<length stores.
               if store_status (stores_searched r ! k) = COMPLETED
               then returned_count
                      (search_store d k (store_value (stores ! k)) (attributes_recognized r) sid)
               else 0)
       \<and> map store_name (stores_searched r) = map store_value stores
       \<and> (\<forall>k<length stores.
             (store_status (stores_searched r ! k) = COMPLETED \<longleftrightarrow>
                \<not> isl (search_store d k (store_value (stores ! k)) (attributes_recognized r) sid))
           \<and> (store_status (stores_searched r ! k) = FAILED \<longleftrightarrow>
                isl (search_store d k (store_value (stores ! k)) (attributes_recognized r) sid)))"
proof -
  have ok: "read_ok img \<and> \<not> isl (analyze d (image_location svc img sid))"
  proof (rule ccontr)
    assume "\<not> (read_ok img \<and> \<not> isl (analyze d (image_location svc img sid)))"
    then have "\<not> read_ok img \<or> isl (analyze d (image_location svc img sid))" by blast
    from process_search_not_completed [OF rel this, of stores w] fin cmp
    show False by simp
  qed
  then obtain attrs ms where an: "analyze d (image_location svc img sid) = Inr (attrs, ms)"
    by (cases "analyze d (image_location svc img sid)") auto
  from ok have rd: "read_ok img" by simp
  let ?out = "\<lambda>k. search_store d k (store_value (stores ! k)) attrs sid"
  from process_search_effect [OF rel q rd an, of stores w]
  obtain r' where eff: "files (process_search d e svc img stores sid w) = (files w)(sid \<mapsto> r')"
      "attributes_recognized r' = attrs"
      "result_count r' = (\<Sum>k<length stores. returned_count (?out k))"
      "map store_name (stores_searched r') = map store_value stores"
      "\<forall>k<length stores. stores ! k \<notin> set (drop (Suc k) stores) \<longrightarrow>
            (\<exists>x. entry_of r' (store_value (stores ! k)) = Some x
               \<and> store_status x = store_outcome (?out k)
               \<and> (isl (?out k) \<longrightarrow> time_ms x = 0))"
    by blast
  from eff(1) fin have "r' = r" by simp
  with eff have at: "attributes_recognized r = attrs"
    and rc: "result_count r = (\<Sum>k<length stores. returned_count (?out k))"
    and nm: "map store_name (stores_searched r) = map store_value stores"
    and en: "\<forall>k<length stores. stores ! k \<notin> set (drop (Suc k) stores) \<longrightarrow>
            (\<exists>x. entry_of r (store_value (stores ! k)) = Some x
               \<and> store_status x = store_outcome (?out k)
               \<and> (isl (?out k) \<longrightarrow> time_ms x = 0))"
    by simp_all
  let ?xs = "stores_searched r"
  from nm have len: "length ?xs = length stores" by (metis length_map)
  have "inj store_value" by (simp add: inj_def)
  then have dn: "distinct (map store_name ?xs)"
    using dist nm by (simp add: distinct_map inj_on_def)
  have st: "store_status (?xs ! k) = store_outcome (?out k)" if k: "k < length stores" for k
  proof -
    from k len have k': "k < length ?xs" by simp
    have "store_name (?xs ! k) = store_value (stores ! k)"
      using nm k k' by (metis nth_map)
    with find_distinct_nth [OF dn k']
    have "entry_of r (store_value (stores ! k)) = Some (?xs ! k)"
      by (simp add: entry_of_def)
    with en k distinct_not_in_drop [OF dist k] show ?thesis by auto
  qed
  have sum: "(\<Sum>k<length stores. returned_count (?out k)) =
      (\<Sum>k<length stores. if store_status (?xs ! k) = COMPLETED
                              then returned_count (?out k) else 0)"
  proof (rule sum.cong [OF refl])
    fix k assume "k \<in> {..<length stores}"
    then have k: "k < length stores" by simp
    show "returned_count (?out k) =
        (if store_status (?xs ! k) = COMPLETED then returned_count (?out k) else 0)"
      using st [OF k]
      by (cases "?out k") (simp_all add: store_outcome_def returned_count_def)
  qed
  have iff: "\<forall>k<length stores.
             (store_status (?xs ! k) = COMPLETED \<longleftrightarrow> \<not> isl (?out k))
           \<and> (store_status (?xs ! k) = FAILED \<longleftrightarrow> isl (?out k))"
    by (auto simp: st store_outcome_def split: sum.splits)
  from rc sum have one: "result_count r =
      (\<Sum>k<length stores. if store_status (?xs ! k) = COMPLETED
                              then returned_count (?out k) else 0)"
    by (rule trans)
  show ?thesis unfolding at by (rule conjI [OF one conjI [OF nm iff]])
qed


theorem result_count_sums_completed_stores_witness:
  "reliable example_env \<and> repository_quiet example_deps \<and> distinct [ZALANDO, ASOS]
   \<and> status (the (files (process_search example_deps example_env example_service example_image
          [ZALANDO, ASOS] ''a1'' empty_world) ''a1'')) = COMPLETED
   \<and> result_count (the (files (process_search example_deps example_env example_service
          example_image [ZALANDO, ASOS] ''a1'' empty_world) ''a1'')) =
       (\<Sum>k<length [ZALANDO, ASOS].
           if store_status (stores_searched (the (files (process_search example_deps example_env
                 example_service example_image [ZALANDO, ASOS] ''a1'' empty_world) ''a1'')) ! k)
                = COMPLETED
           then returned_count
                  (search_store example_deps k (store_value ([ZALANDO, ASOS] ! k))
                     (attributes_recognized (the (files (process_search example_deps example_env
                        example_service example_image [ZALANDO, ASOS] ''a1'' empty_world) ''a1'')))
                     ''a1'')
           else 0)"
proof -
  let ?P = "process_search example_deps example_env example_service example_image
          [ZALANDO, ASOS] ''a1'' empty_world"
  have rel: "reliable example_env" by (simp add: reliable_def example_env_def)
  have q: "repository_quiet example_deps"
    by (simp add: repository_quiet_def example_deps_def)
  have rd: "read_ok example_image" by (simp add: example_image_def)
  have an: "analyze example_deps (image_location example_service example_image ''a1'')
      = Inr (example_attributes, 1500)"
    by (simp add: example_deps_def)
  have dist: "distinct [ZALANDO, ASOS]" by simp
  from process_search_effect [OF rel q rd an, of "[ZALANDO, ASOS]" empty_world]
  obtain r where r: "files ?P = (files empty_world)(''a1'' \<mapsto> r)" "status r = COMPLETED"
    by blast
  then have f: "files ?P ''a1'' = Some r" by simp
  from result_count_sums_completed_stores [OF rel q dist f r(2)] rel q r(2) f
  show ?thesis by simp
qed






text \<open>
  C8. \<open>process_search\<close> does not fan out: its \<open>for\<close> loop awaits the search of
  one store, writes that store's sub-status, and only then turns to the next one
  (\<open>search_multiple_stores\<close>, which gathers the searches, is never called). For the
  stores \<open>zalando\<close> and \<open>asos\<close>: the loop over both is the loop over \<open>asos\<close> alone,
  started in the world that the turn for \<open>zalando\<close> has left, and in that world
  \<open>zalando\<close> is already \<open>completed\<close> while \<open>asos\<close> has not begun.
\<close>

theorem second_search_starts_after_first_finished:
  "search_stores example_deps example_env ''a1'' example_attributes 0 0 [ZALANDO, ASOS]
      (Map.empty, 0) (initialize_search example_env ''a1'' [''zalando'', ''asos''] empty_world)
    = search_stores example_deps example_env ''a1'' example_attributes 0 (Suc 0) [ASOS]
        (fst (snd (search_one_store example_deps example_env ''a1'' example_attributes 0 0
                     ZALANDO (Map.empty, 0)
                     (initialize_search example_env ''a1'' [''zalando'', ''asos''] empty_world))))
        (fst (search_one_store example_deps example_env ''a1'' example_attributes 0 0
                ZALANDO (Map.empty, 0)
                (initialize_search example_env ''a1'' [''zalando'', ''asos''] empty_world)))
   \<and> map store_status (stores_searched (the (files
         (fst (search_one_store example_deps example_env ''a1'' example_attributes 0 0
                 ZALANDO (Map.empty, 0)
                 (initialize_search example_env ''a1'' [''zalando'', ''asos''] empty_world)))
         ''a1''))) = [COMPLETED, PROCESSING]"
proof -
  let ?w = "initialize_search example_env ''a1'' [''zalando'', ''asos''] empty_world"
  let ?one = "search_one_store example_deps example_env ''a1'' example_attributes 0 0
                ZALANDO (Map.empty, 0) ?w"
  have n: "snd (snd ?one) = None"
    by (simp add: run_defs)
  have "search_stores example_deps example_env ''a1'' example_attributes 0 0 [ZALANDO, ASOS]
      (Map.empty, 0) ?w
    = search_stores example_deps example_env ''a1'' example_attributes 0 (Suc 0) [ASOS]
        (fst (snd ?one)) (fst ?one)"
    by (subst search_stores.simps(2)) (simp add: case_prod_beta n del: search_stores.simps)
  moreover have "map store_status (stores_searched (the (files (fst ?one) ''a1'')))
      = [COMPLETED, PROCESSING]"
    by (simp add: run_defs)
  ultimately show ?thesis by (rule conjI)
qed

section \<open>Properties of the submission endpoint\<close>

text \<open>
  C5. A submission whose content type is not \<open>image/jpeg\<close> or \<open>image/png\<close>, or
  whose payload is longer than 10 MiB, is rejected by the handler with an
  \<open>HTTPException\<close> of status 400: no background task is added, none runs, and the
  world is as it was, so no search record is created. A readable JPEG or PNG of at most
  10 MiB is answered with status 202, the new search identifier, the status
  \<open>processing\<close>, an estimated time of 10 seconds and the timestamp, and one background
  task, \<open>process_search\<close> for that identifier and the requested stores (all of them
  when none is given), is added and run after the response.
\<close>

theorem submission_validation:
  "((case content_type img of None \<Rightarrow> True
       | Some ct \<Rightarrow> ct \<noteq> ''image/jpeg'' \<and> ct \<noteq> ''image/png'')
      \<or> 10 * 1024 * 1024 < length (content img)
     \<longrightarrow> (\<exists>msg. create_search new_id stamp tasks img stores = Inl (HTTPException 400 msg)
            \<and> post_search d e svc new_id stamp img stores w = (Inl (HTTPException 400 msg), w)))
   \<and> ((content_type img = Some ''image/jpeg'' \<or> content_type img = Some ''image/png'')
        \<and> read_ok img \<and> length (content img) \<le> 10 * 1024 * 1024
     \<longrightarrow> (\<exists>requested.
            requested = (case stores of None \<Rightarrow> all_stores
                         | Some l \<Rightarrow> if l = [] then all_stores else l)
            \<and> create_search new_id stamp tasks img stores =
                Inr ((202, \<lparr>response_search_id = new_id, response_status = ''processing'',
                            estimated_time_seconds = 10, timestamp = stamp\<rparr>),
                     tasks @ [(img, requested, new_id)])
            \<and> post_search d e svc new_id stamp img stores w =
                (Inr (202, \<lparr>response_search_id = new_id, response_status = ''processing'',
                            estimated_time_seconds = 10, timestamp = stamp\<rparr>),
                 process_search d e svc img requested new_id w)))"
proof (intro conjI impI)
  assume bad: "(case content_type img of None \<Rightarrow> True
       | Some ct \<Rightarrow> ct \<noteq> ''image/jpeg'' \<and> ct \<noteq> ''image/png'')
      \<or> 10 * 1024 * 1024 < length (content img)"
  have "\<not> fst (validate_image img)"
  proof (cases "case content_type img of None \<Rightarrow> True
       | Some ct \<Rightarrow> ct \<noteq> ''image/jpeg'' \<and> ct \<noteq> ''image/png''")
    case True
    then show ?thesis by (auto simp: validate_image_def split: option.splits)
  next
    case False
    with bad have "10 * 1024 * 1024 < length (content img)" by simp
    then have "real (length (content img)) / (1024 * 1024) > 10" by simp
    then show ?thesis by (simp add: validate_image_def Let_def)
  qed
  then have c: "create_search new_id stamp tasks' img stores =
      Inl (HTTPException 400 (snd (validate_image img)))" for tasks'
    by (simp add: create_search_def case_prod_beta)
  then show "\<exists>msg. create_search new_id stamp tasks img stores = Inl (HTTPException 400 msg)
            \<and> post_search d e svc new_id stamp img stores w = (Inl (HTTPException 400 msg), w)"
    by (simp add: post_search_def)
next
  assume ok: "(content_type img = Some ''image/jpeg'' \<or> content_type img = Some ''image/png'')
        \<and> read_ok img \<and> length (content img) \<le> 10 * 1024 * 1024"
  then have "real (length (content img)) / (1024 * 1024) \<le> 10" by simp
  with ok have v: "validate_image img = (True, [])"
    by (auto simp: validate_image_def Let_def)
  let ?requested = "case stores of None \<Rightarrow> all_stores
                         | Some l \<Rightarrow> if l = [] then all_stores else l"
  let ?resp = "\<lparr>response_search_id = new_id, response_status = ''processing'',
                            estimated_time_seconds = 10, timestamp = stamp\<rparr>"
  have c: "create_search new_id stamp tasks' img stores =
      Inr ((202, ?resp), tasks' @ [(img, ?requested, new_id)])" for tasks'
    using v by (simp add: create_search_def)
  then have p: "post_search d e svc new_id stamp img stores w =
      (Inr (202, ?resp), process_search d e svc img ?requested new_id w)"
    by (simp add: post_search_def run_tasks_def)
  from c [of tasks] p
  show "\<exists>requested.
            requested = ?requested
            \<and> create_search new_id stamp tasks img stores =
                Inr ((202, ?resp), tasks @ [(img, requested, new_id)])
            \<and> post_search d e svc new_id stamp img stores w =
                (Inr (202, ?resp), process_search d e svc img requested new_id w)"
    by blast
qed

theorem submission_validation_witness:
  "10 * 1024 * 1024 < length (content large_png)
   \<and> post_search example_deps example_env example_service ''a1'' ''2023-04-14T19:22:37+00:00''
        large_png None empty_world
       = (Inl (HTTPException 400 ''Image too large. Maximum size is 10 MB.''), empty_world)
   \<and> post_search example_deps example_env example_service ''a1'' ''2023-04-14T19:22:37+00:00''
        pdf_file None empty_world
       = (Inl (HTTPException 400 ''Invalid image format. Only JPEG/PNG accepted.''), empty_world)
   \<and> content_type example_image = Some ''image/jpeg'' \<and> read_ok example_image
   \<and> length (content example_image) \<le> 10 * 1024 * 1024
   \<and> create_search ''a1'' ''2023-04-14T19:22:37+00:00'' [] example_image (Some [ZALANDO, ASOS])
       = Inr ((202, \<lparr>response_search_id = ''a1'', response_status = ''processing'',
                     estimated_time_seconds = 10, timestamp = ''2023-04-14T19:22:37+00:00''\<rparr>),
              [(example_image, [ZALANDO, ASOS], ''a1'')])"
proof -
  have big: "10 * 1024 * 1024 < length (content large_png)"
    by (simp add: large_png_def)
  have ok: "(content_type example_image = Some ''image/jpeg''
        \<or> content_type example_image = Some ''image/png'')
      \<and> read_ok example_image \<and> length (content example_image) \<le> 10 * 1024 * 1024"
    by (simp add: example_image_def)
  have v1: "snd (validate_image large_png) = ''Image too large. Maximum size is 10 MB.''"
    by (simp add: validate_image_def large_png_def)
  have v2: "snd (validate_image pdf_file) = ''Invalid image format. Only JPEG/PNG accepted.''"
    by (simp add: validate_image_def pdf_file_def)
  from submission_validation [of large_png "''a1''" "''2023-04-14T19:22:37+00:00''" "[]" None
      example_deps example_env example_service empty_world] big
  have r1: "\<exists>msg. create_search ''a1'' ''2023-04-14T19:22:37+00:00'' [] large_png None
        = Inl (HTTPException 400 msg)
      \<and> post_search example_deps example_env example_service ''a1''
          ''2023-04-14T19:22:37+00:00'' large_png None empty_world
        = (Inl (HTTPException 400 msg), empty_world)"
    by blast
  have nv: "\<not> fst (validate_image large_png)"
    by (simp add: validate_image_def large_png_def)
  have c1: "create_search ''a1'' ''2023-04-14T19:22:37+00:00'' [] large_png None
      = Inl (HTTPException 400 (snd (validate_image large_png)))"
    by (simp add: create_search_def case_prod_beta nv)
  with r1 v1 have p1: "post_search example_deps example_env example_service ''a1''
          ''2023-04-14T19:22:37+00:00'' large_png None empty_world
        = (Inl (HTTPException 400 ''Image too large. Maximum size is 10 MB.''), empty_world)"
    by auto
  have p2: "post_search example_deps example_env example_service ''a1''
          ''2023-04-14T19:22:37+00:00'' pdf_file None empty_world
        = (Inl (HTTPException 400 ''Invalid image format. Only JPEG/PNG accepted.''), empty_world)"
    by (simp add: post_search_def create_search_def validate_image_def pdf_file_def)
  from submission_validation [of example_image "''a1''" "''2023-04-14T19:22:37+00:00''" "[]"
      "Some [ZALANDO, ASOS]" example_deps example_env example_service empty_world] ok
  have c3: "create_search ''a1'' ''2023-04-14T19:22:37+00:00'' [] example_image
        (Some [ZALANDO, ASOS])
       = Inr ((202, \<lparr>response_search_id = ''a1'', response_status = ''processing'',
                     estimated_time_seconds = 10, timestamp = ''2023-04-14T19:22:37+00:00''\<rparr>),
              [(example_image, [ZALANDO, ASOS], ''a1'')])"
    by simp
  have ct: "content_type example_image = Some ''image/jpeg''"
    by (simp add: example_image_def)
  from big p1 p2 ok c3 ct show ?thesis by simp
qed

end
